theory Spec2Isabelle
  imports Complex_Main "HOL-Library.Sublist" "HOL-Library.Log_Nat"
begin

section \<open>Numbers, tiers and small helpers\<close>

text \<open>
  The application is a single React component (\<^verbatim>\<open>src/App.jsx\<close>). Its numbers are
  JavaScript numbers, that is IEEE 754 doubles. A finite double is modelled as the rational
  it denotes, and every arithmetic operation of the source as the exact operation followed
  by rounding to the nearest double (\<open>double\<close> below, ties to even, with gradual
  underflow). A decimal literal of the source such as \<^verbatim>\<open>14.4\<close> is \<open>double (144 / 10)\<close>.
  Results beyond the largest double would be \<^verbatim>\<open>Infinity\<close> in the source; the quantities
  computed here stay far below it for the targets the component admits (the inputs clamp
  them to 90..100 and 50..5000), so overflow is not modelled.
  Three computed quantities can leave the finite range in the source: \<^verbatim>\<open>burn\<close>
  (\<^verbatim>\<open>Infinity\<close> when the error budget is not positive), \<^verbatim>\<open>availability\<close> and
  \<^verbatim>\<open>p95\<close> (\<^verbatim>\<open>NaN\<close> on an empty window). They have type \<open>jsnum\<close>.
  \<^verbatim>\<open>Date.now()\<close> yields integer milliseconds, far below \<open>2\<^sup>5\<^sup>3\<close>, where doubles are
  exact: timestamps have type \<open>int\<close>. Each call may read a different value, so a
  function that calls it several times takes a clock from call index to reading.
  \<^verbatim>\<open>Math.random()\<close> and \<^verbatim>\<open>uuid()\<close> are parameters as well.
\<close>

subsection \<open>Rounding to the nearest double\<close>

text \<open>\<open>ilog2 x\<close> is the binary exponent of a positive \<open>x\<close>: \<open>2 ^ ilog2 x \<le> x < 2 ^ (ilog2 x + 1)\<close>.\<close>

definition ilog2 :: "rat \<Rightarrow> int" where
  "ilog2 x = (if 1 \<le> x then bitlen \<lfloor>x\<rfloor> - 1 else - bitlen (\<lceil>1 / x\<rceil> - 1))"

definition round_half_even :: "rat \<Rightarrow> int" where
  "round_half_even y =
     (let f = \<lfloor>y\<rfloor>; d = y - of_int f
      in if d < 1 / 2 then f else if 1 / 2 < d then f + 1 else if even f then f else f + 1)"

text \<open>A double has a significand of 53 bits and a least exponent of \<open>-1074\<close>: \<open>x\<close> is
  rounded to the nearest multiple of \<open>2 ^ e\<close>, where \<open>e\<close> is the exponent of the last
  significand bit.\<close>

definition double :: "rat \<Rightarrow> rat" where
  "double x =
     (if x = 0 then 0
      else let e = max (ilog2 \<bar>x\<bar> - 52) (- 1074)
           in of_int (round_half_even (x / 2 powi e)) * 2 powi e)"

text \<open>\<^verbatim>\<open>a + b\<close>, \<^verbatim>\<open>a - b\<close>, \<^verbatim>\<open>a * b\<close> and \<^verbatim>\<open>a / b\<close> on finite doubles. The source
  divides only by a count or a budget it has tested to be positive.\<close>

definition fadd :: "rat \<Rightarrow> rat \<Rightarrow> rat" where
  "fadd a b = double (a + b)"

definition fsub :: "rat \<Rightarrow> rat \<Rightarrow> rat" where
  "fsub a b = double (a - b)"

definition fmul :: "rat \<Rightarrow> rat \<Rightarrow> rat" where
  "fmul a b = double (a * b)"

definition fdiv :: "rat \<Rightarrow> rat \<Rightarrow> rat" where
  "fdiv a b = double (a / b)"

subsection \<open>Computed numbers, tiers and small helpers\<close>

datatype jsnum = Num rat | Infinity | NaN

text \<open>\<^verbatim>\<open>a >= t\<close>, \<^verbatim>\<open>a < t\<close> and \<^verbatim>\<open>a > t\<close> for a computed \<open>a\<close> and a finite \<open>t\<close>:
  every comparison with \<^verbatim>\<open>NaN\<close> is false.\<close>

fun ge_num :: "jsnum \<Rightarrow> rat \<Rightarrow> bool" where
  "ge_num (Num x) t = (t \<le> x)"
| "ge_num Infinity t = True"
| "ge_num NaN t = False"

fun lt_num :: "jsnum \<Rightarrow> rat \<Rightarrow> bool" where
  "lt_num (Num x) t = (x < t)"
| "lt_num Infinity t = False"
| "lt_num NaN t = False"

fun gt_num :: "jsnum \<Rightarrow> rat \<Rightarrow> bool" where
  "gt_num (Num x) t = (t < x)"
| "gt_num Infinity t = True"
| "gt_num NaN t = False"

text \<open>Truthiness of an optional timestamp (\<^verbatim>\<open>undefined\<close> and \<^verbatim>\<open>0\<close> are falsy).\<close>

fun truthy :: "int option \<Rightarrow> bool" where
  "truthy None = False"
| "truthy (Some t) = (t \<noteq> 0)"

datatype tier_name = Tier0 | Tier1 | Tier2 | Tier3

datatype severity_level = P0 | P1 | P2 | P3

datatype scenario_name = Calm | K8sNetworkMeltdown | ViralDiscountCode

definition clamp :: "'a::linorder \<Rightarrow> 'a \<Rightarrow> 'a \<Rightarrow> 'a" where
  "clamp n lo hi = max lo (min hi n)"

text \<open>\<^verbatim>\<open>Math.round\<close>: the nearest integer, ties towards \<open>+\<infinity>\<close> (exact on a double).\<close>

definition Math_round :: "rat \<Rightarrow> rat" where
  "Math_round x = of_int \<lfloor>x + 1 / 2\<rfloor>"

definition percentile :: "rat list \<Rightarrow> rat \<Rightarrow> jsnum" where
  "percentile arr p =
     (if arr = [] then NaN
      else let sorted = sort arr;
               idx = \<lceil>fmul (fdiv p 100) (of_nat (length sorted))\<rceil> - 1
           in Num (sorted ! nat (clamp idx 0 (int (length sorted) - 1))))"

definition expectedBadPercent :: "rat \<Rightarrow> rat \<Rightarrow> rat" where
  "expectedBadPercent sloTarget burnThr = fmul (fsub 100 sloTarget) burnThr"

section \<open>Events, policy and application state\<close>

text \<open>The fields of an event that some function of the component reads. The event's
  descriptive strings (logger, flow, environment, tracing identifiers) are never read by
  the alerting logic and are left out.\<close>

record base_event =
  event_type :: string
  is_successful :: bool
  latency_ms :: rat
  status_code :: nat
  ts :: int

record compliance =
  is_slo_compliant :: bool
  slo_violations :: "string list"
  slo_thresholds :: rat

text \<open>\<^verbatim>\<open>{ ...base, ...compliance, additional_context: { discount_rate, ... } }\<close>\<close>

record event = base_event +
  slo_compliance :: compliance
  discount_rate :: rat

record slo_cfg =
  availabilityTarget :: rat
  latencyP95Target :: rat

record sli_cfg =
  sli_availability :: bool
  sli_latencyP95 :: bool

datatype message =
    BurnMsg rat rat jsnum rat jsnum bool
  | SloBreachMsg jsnum rat
  | LatencyMsg jsnum rat
  | SaturationMsg rat
  | BusinessMsg nat

record candidate =
  atype :: string
  severity :: severity_level
  message :: message

text \<open>\<^verbatim>\<open>{ id: uuid(), createdAt: Date.now(), ...a }\<close>; \<^verbatim>\<open>ackAt\<close> and
  \<^verbatim>\<open>resolvedAt\<close> are absent until set.\<close>

record alert = candidate +
  alert_id :: string
  createdAt :: int
  ackAt :: "int option"
  resolvedAt :: "int option"

record app_state =
  tier :: tier_name
  sli :: sli_cfg
  slo :: slo_cfg
  autoSim :: bool
  scenario :: scenario_name
  cpu :: rat
  bakeSLI :: bool
  autoTierPresets :: bool
  lockExpected :: bool
  lockedSloTarget :: rat
  logs :: "event list"
  alerts :: "alert list"
  score :: int
  badges :: "string list"

section \<open>Goodness policy and windowed metrics\<close>

text \<open>\<^verbatim>\<open>goodByPolicy(ev)\<close>; \<open>None\<close> is a null or undefined argument.\<close>

definition goodByPolicy :: "app_state \<Rightarrow> event option \<Rightarrow> bool" where
  "goodByPolicy st evo =
     (case evo of
        None \<Rightarrow> False
      | Some ev \<Rightarrow>
          if \<not> is_successful ev then False
          else if \<not> bakeSLI st then True
          else latency_ms ev \<le> latencyP95Target (slo st))"

definition windowMs :: int where
  "windowMs = 60000"

text \<open>\<open>now\<close> is the reading taken when the component renders.\<close>

definition windowLogs :: "app_state \<Rightarrow> int \<Rightarrow> event list" where
  "windowLogs st now = filter (\<lambda>l. now - ts l \<le> windowMs) (logs st)"

definition availability :: "app_state \<Rightarrow> int \<Rightarrow> jsnum" where
  "availability st now =
     (if windowLogs st now = [] then NaN
      else let ok = length (filter (\<lambda>l. goodByPolicy st (Some l)) (windowLogs st now))
           in Num (fmul (fdiv (of_nat ok) (of_nat (length (windowLogs st now)))) 100))"

definition p95 :: "app_state \<Rightarrow> int \<Rightarrow> jsnum" where
  "p95 st now = percentile (map latency_ms (windowLogs st now)) 95"

definition sloTarget :: "app_state \<Rightarrow> rat" where
  "sloTarget st = availabilityTarget (slo st)"

definition expectedSlo :: "app_state \<Rightarrow> rat" where
  "expectedSlo st = (if lockExpected st then lockedSloTarget st else sloTarget st)"

definition expBadPctAt :: "app_state \<Rightarrow> rat \<Rightarrow> rat" where
  "expBadPctAt st thr = expectedBadPercent (expectedSlo st) thr"

definition DEMO_HOUR_SEC :: rat where
  "DEMO_HOUR_SEC = 60"

definition hours :: "rat \<Rightarrow> rat" where
  "hours h = fmul h DEMO_HOUR_SEC"

definition minutes :: "rat \<Rightarrow> rat" where
  "minutes m = fmul (fdiv m 60) DEMO_HOUR_SEC"

definition days :: "rat \<Rightarrow> rat" where
  "days d = fmul (fmul d 24) DEMO_HOUR_SEC"

record mwmb =
  g_long :: rat
  g_short :: rat
  g_thr :: rat
  g_label :: string

definition pageA :: mwmb where
  "pageA = \<lparr>g_long = hours 1, g_short = minutes 5, g_thr = double (144 / 10),
            g_label = ''Page: 1h & 5m @14.4x''\<rparr>"

definition pageB :: mwmb where
  "pageB = \<lparr>g_long = hours 6, g_short = minutes 30, g_thr = 6,
            g_label = ''Page: 6h & 30m @6x''\<rparr>"

definition ticketA :: mwmb where
  "ticketA = \<lparr>g_long = hours 24, g_short = hours 2, g_thr = 3,
              g_label = ''Ticket: 24h & 2h @3x''\<rparr>"

definition ticketB :: mwmb where
  "ticketB = \<lparr>g_long = days 3, g_short = hours 6, g_thr = 1,
              g_label = ''Ticket: 3d & 6h @1x''\<rparr>"

record stats =
  total_n :: nat
  badPct :: rat
  burn :: jsnum

text \<open>\<^verbatim>\<open>burnStats(seconds)\<close>; \<open>dnow\<close> is the reading of its \<^verbatim>\<open>Date.now()\<close>.\<close>

definition burnStats :: "app_state \<Rightarrow> int \<Rightarrow> rat \<Rightarrow> stats" where
  "burnStats st dnow seconds =
     (let cutoff = fsub (of_int dnow) (fmul seconds 1000);
          slice = filter (\<lambda>l. cutoff \<le> of_int (ts l)) (logs st);
          total = length slice
      in if total = 0 then \<lparr>total_n = 0, badPct = 0, burn = Num 0\<rparr>
         else let bad = length (filter (\<lambda>l. \<not> goodByPolicy st (Some l)) slice);
                  badPct = fmul (fdiv (of_nat bad) (of_nat total)) 100;
                  burn = (if fsub 100 (sloTarget st) > 0
                          then Num (fdiv badPct (fsub 100 (sloTarget st)))
                          else Infinity)
              in \<lparr>total_n = total, badPct = badPct, burn = burn\<rparr>)"

section \<open>Alert evaluation\<close>

record pair =
  key :: string
  short :: rat
  long :: rat
  thr :: rat
  pseverity :: severity_level

definition pairs :: "tier_name \<Rightarrow> pair list" where
  "pairs t =
     [\<lparr>key = g_label pageA, short = g_short pageA, long = g_long pageA, thr = g_thr pageA,
       pseverity = (if t = Tier0 \<or> t = Tier1 then P0 else P1)\<rparr>,
      \<lparr>key = g_label pageB, short = g_short pageB, long = g_long pageB, thr = g_thr pageB,
       pseverity = (if t = Tier0 \<or> t = Tier1 then P0 else P1)\<rparr>,
      \<lparr>key = g_label ticketA, short = g_short ticketA, long = g_long ticketA,
       thr = g_thr ticketA, pseverity = P2\<rparr>,
      \<lparr>key = g_label ticketB, short = g_short ticketB, long = g_long ticketB,
       thr = g_thr ticketB, pseverity = P2\<rparr>]"

text \<open>The condition of the \<^verbatim>\<open>if\<close> in the loop over the pairs.\<close>

definition fires :: "pair \<Rightarrow> stats \<Rightarrow> stats \<Rightarrow> bool" where
  "fires p s l =
     (ge_num (burn s) (thr p) \<and> ge_num (burn l) (thr p) \<and> total_n s > 20 \<and> total_n l > 20)"

text \<open>\<^verbatim>\<open>for (const p of pairs) { ... }\<close>: each pair reads the clock twice, readings
  \<open>k\<close> and \<open>k + 1\<close> of the pass.\<close>

fun burn_loop :: "app_state \<Rightarrow> (nat \<Rightarrow> int) \<Rightarrow> nat \<Rightarrow> pair list \<Rightarrow> candidate list" where
  "burn_loop st clk k [] = []"
| "burn_loop st clk k (p # ps) =
     (let s = burnStats st (clk k) (short p);
          l = burnStats st (clk (Suc k)) (long p)
      in (if fires p s l
          then [\<lparr>atype = key p, severity = pseverity p,
                 message = BurnMsg (thr p) (short p) (burn s) (long p) (burn l) (bakeSLI st)\<rparr>]
          else [])
         @ burn_loop st clk (k + 2) ps)"

definition promoLastMin :: "app_state \<Rightarrow> int \<Rightarrow> nat" where
  "promoLastMin st now =
     length (filter (\<lambda>l. event_type l = ''add_promo_code'' \<and> is_successful l
                          \<and> discount_rate l \<ge> 1 / 2) (windowLogs st now))"

definition demo_checks :: "app_state \<Rightarrow> int \<Rightarrow> candidate list" where
  "demo_checks st now =
     (if sli_availability (sli st) \<and> lt_num (availability st now) (sloTarget st)
         \<and> length (windowLogs st now) > 50
      then [\<lparr>atype = ''SLO Breach (demo)'',
             severity = (if tier st = Tier0 then P0 else if tier st = Tier1 then P1
                         else if tier st = Tier2 then P2 else P3),
             message = SloBreachMsg (availability st now) (sloTarget st)\<rparr>]
      else [])
     @ (if sli_latencyP95 (sli st) \<and> gt_num (p95 st now) (latencyP95Target (slo st))
           \<and> length (windowLogs st now) > 30
        then [\<lparr>atype = ''Latency p95 (demo)'', severity = P2,
               message = LatencyMsg (p95 st now) (latencyP95Target (slo st))\<rparr>]
        else [])
     @ (if cpu st > 85 \<and> length (windowLogs st now) > 10
        then [\<lparr>atype = ''Saturation (demo)'', severity = P2,
               message = SaturationMsg (cpu st)\<rparr>]
        else [])
     @ (if promoLastMin st now > 200
        then [\<lparr>atype = ''Business Metric (demo)'', severity = P1,
               message = BusinessMsg (promoLastMin st now)\<rparr>]
        else [])"

text \<open>The list \<^verbatim>\<open>newAlerts\<close> that \<^verbatim>\<open>checkAlerts\<close> builds before it touches the store.\<close>

definition newAlerts :: "app_state \<Rightarrow> int \<Rightarrow> (nat \<Rightarrow> int) \<Rightarrow> candidate list" where
  "newAlerts st now clk = burn_loop st clk 0 (pairs (tier st)) @ demo_checks st now"

definition is_open :: "alert \<Rightarrow> bool" where
  "is_open a = (\<not> truthy (resolvedAt a))"

definition openTypes :: "alert list \<Rightarrow> string set" where
  "openTypes prev = set (map atype (filter is_open prev))"

definition mk_alert :: "(nat \<Rightarrow> string) \<Rightarrow> (nat \<Rightarrow> int) \<Rightarrow> nat \<times> candidate \<Rightarrow> alert" where
  "mk_alert uuid aclk ka =
     \<lparr>atype = atype (snd ka), severity = severity (snd ka), message = message (snd ka),
      alert_id = uuid (fst ka), createdAt = aclk (fst ka), ackAt = None, resolvedAt = None\<rparr>"

definition toAdd :: "(nat \<Rightarrow> string) \<Rightarrow> (nat \<Rightarrow> int) \<Rightarrow> candidate list \<Rightarrow> alert list \<Rightarrow> alert list" where
  "toAdd uuid aclk new prev =
     map (mk_alert uuid aclk) (enumerate 0 (filter (\<lambda>a. atype a \<notin> openTypes prev) new))"

text \<open>The updater passed to \<^verbatim>\<open>setAlerts\<close> in \<^verbatim>\<open>checkAlerts\<close>.\<close>

definition dedup :: "(nat \<Rightarrow> string) \<Rightarrow> (nat \<Rightarrow> int) \<Rightarrow> candidate list \<Rightarrow> alert list \<Rightarrow> alert list" where
  "dedup uuid aclk new prev =
     (if toAdd uuid aclk new prev = [] then prev else toAdd uuid aclk new prev @ prev)"

text \<open>The alert store after \<^verbatim>\<open>checkAlerts()\<close> (score and badges are not tracked).\<close>

definition checkAlerts :: "app_state \<Rightarrow> int \<Rightarrow> (nat \<Rightarrow> int) \<Rightarrow> (nat \<Rightarrow> string) \<Rightarrow> (nat \<Rightarrow> int) \<Rightarrow> alert list" where
  "checkAlerts st now clk uuid aclk =
     (if newAlerts st now clk = [] then alerts st
      else dedup uuid aclk (newAlerts st now clk) (alerts st))"

section \<open>Alert lifecycle\<close>

text \<open>The updaters of \<^verbatim>\<open>ackAlert\<close> and \<^verbatim>\<open>resolveAlert\<close>: \<open>clk k\<close> is the reading
  \<^verbatim>\<open>Date.now()\<close> gives for the element at position \<open>k\<close>, if that element is rewritten.\<close>

definition ackAlert :: "(nat \<Rightarrow> int) \<Rightarrow> string \<Rightarrow> alert list \<Rightarrow> alert list" where
  "ackAlert clk i arr =
     map (\<lambda>(k, a). if alert_id a = i \<and> \<not> truthy (ackAt a) then a\<lparr>ackAt := Some (clk k)\<rparr> else a)
         (enumerate 0 arr)"

definition resolveAlert :: "(nat \<Rightarrow> int) \<Rightarrow> string \<Rightarrow> alert list \<Rightarrow> alert list" where
  "resolveAlert clk i arr =
     map (\<lambda>(k, a). if alert_id a = i \<and> \<not> truthy (resolvedAt a)
                    then a\<lparr>resolvedAt := Some (clk k)\<rparr> else a)
         (enumerate 0 arr)"

text \<open>The alert stores the component can hold: it starts empty (\<^verbatim>\<open>useState([])\<close>, also
  what \<^verbatim>\<open>resetAll\<close> restores), and only \<^verbatim>\<open>checkAlerts\<close>, \<^verbatim>\<open>ackAlert\<close> and
  \<^verbatim>\<open>resolveAlert\<close> write it. Everything else in the state may change freely between
  two writes.\<close>

inductive reachable :: "alert list \<Rightarrow> bool" where
  init: "reachable []"
| check: "reachable (alerts st) \<Longrightarrow> reachable (checkAlerts st now clk uuid aclk)"
| ack: "reachable arr \<Longrightarrow> reachable (ackAlert clk i arr)"
| resolve: "reachable arr \<Longrightarrow> reachable (resolveAlert clk i arr)"

section \<open>Classification and ingestion\<close>

definition computeSloCompliance :: "app_state \<Rightarrow> 'a base_event_scheme \<Rightarrow> compliance" where
  "computeSloCompliance st b =
     (let violations = (if latency_ms b > latencyP95Target (slo st) then [''latency''] else [])
      in \<lparr>is_slo_compliant = (length violations = 0), slo_violations = violations,
          slo_thresholds = latencyP95Target (slo st)\<rparr>)"

text \<open>The argument of \<^verbatim>\<open>pushManualLog\<close>: every field may be absent.\<close>

record partial =
  part_event_type :: "string option"
  part_is_successful :: "bool option"
  part_latency_ms :: "rat option"
  part_discount_rate :: "rat option"

text \<open>\<open>r\<close> is the value of the \<^verbatim>\<open>Math.random()\<close> in the latency default.\<close>

definition manual_base :: "int \<Rightarrow> rat \<Rightarrow> partial \<Rightarrow> base_event" where
  "manual_base dnow r part =
     \<lparr>event_type = (case part_event_type part of
                      None \<Rightarrow> ''submit_payment''
                    | Some s \<Rightarrow> if s = [] then ''submit_payment'' else s),
      is_successful = (case part_is_successful part of None \<Rightarrow> True | Some b \<Rightarrow> b),
      latency_ms = (case part_latency_ms part of
                      None \<Rightarrow> Math_round (fadd 100 (fmul r 200))
                    | Some x \<Rightarrow> if x = 0 then Math_round (fadd 100 (fmul r 200)) else x),
      status_code = (if part_is_successful part = Some False then 500 else 200),
      ts = dnow\<rparr>"

definition manual_event :: "app_state \<Rightarrow> int \<Rightarrow> rat \<Rightarrow> partial \<Rightarrow> event" where
  "manual_event st dnow r part =
     (let base = manual_base dnow r part;
          compliance = computeSloCompliance st base
      in \<lparr>event_type = event_type base, is_successful = is_successful base,
          latency_ms = latency_ms base, status_code = status_code base, ts = ts base,
          slo_compliance = compliance,
          discount_rate = (case part_discount_rate part of None \<Rightarrow> 0 | Some d \<Rightarrow> d)\<rparr>)"

text \<open>\<^verbatim>\<open>xs.slice(-n)\<close>: the last \<open>n\<close> elements, all of them when there are fewer.\<close>

definition slice_last :: "nat \<Rightarrow> 'a list \<Rightarrow> 'a list" where
  "slice_last n xs = drop (length xs - n) xs"

text \<open>The history after \<^verbatim>\<open>pushManualLog(partial)\<close>.\<close>

definition pushManualLog :: "app_state \<Rightarrow> int \<Rightarrow> rat \<Rightarrow> partial \<Rightarrow> event list" where
  "pushManualLog st dnow r part = slice_last 3000 (logs st @ [manual_event st dnow r part])"

text \<open>The updater the simulation passes to \<^verbatim>\<open>setLogs\<close> with its batch.\<close>

definition simAppend :: "event list \<Rightarrow> event list \<Rightarrow> event list" where
  "simAppend batch prev =
     (let next = prev @ batch
      in if length next > 3000 then drop (length next - 3000) next else next)"

section \<open>Locking the expected threshold\<close>

text \<open>The effect that follows every change of the target or of the lock.\<close>

definition lockEffect :: "app_state \<Rightarrow> app_state" where
  "lockEffect st = (if \<not> lockExpected st then st\<lparr>lockedSloTarget := availabilityTarget (slo st)\<rparr> else st)"

text \<open>The availability input box, with the value the operator typed.\<close>

definition onAvailabilityInput :: "rat \<Rightarrow> app_state \<Rightarrow> app_state" where
  "onAvailabilityInput v st =
     lockEffect (st\<lparr>slo := (slo st)\<lparr>availabilityTarget := clamp v 90 100\<rparr>\<rparr>)"

text \<open>The lock toggle.\<close>

definition onLockToggle :: "bool \<Rightarrow> app_state \<Rightarrow> app_state" where
  "onLockToggle v st =
     lockEffect (if v then st\<lparr>lockExpected := v, lockedSloTarget := sloTarget st\<rparr>
                 else st\<lparr>lockExpected := v\<rparr>)"

section \<open>Concrete inputs\<close>

definition bad_event :: event where
  "bad_event = \<lparr>event_type = ''submit_payment'', is_successful = False, latency_ms = 120,
                status_code = 500, ts = 0,
                slo_compliance = \<lparr>is_slo_compliant = True, slo_violations = [],
                                  slo_thresholds = 800\<rparr>,
                discount_rate = 0\<rparr>"

definition slow_event :: event where
  "slow_event = \<lparr>event_type = ''submit_payment'', is_successful = True, latency_ms = 400,
                 status_code = 200, ts = 0,
                 slo_compliance = \<lparr>is_slo_compliant = True, slo_violations = [],
                                   slo_thresholds = 800\<rparr>,
                 discount_rate = 0\<rparr>"

definition fast_event :: event where
  "fast_event = slow_event\<lparr>latency_ms := 100\<rparr>"

text \<open>The state of the end-to-end test: 25 failed events, target \<^verbatim>\<open>99.9\<close>.\<close>

definition burning_state :: app_state where
  "burning_state =
     \<lparr>tier = Tier1, sli = \<lparr>sli_availability = True, sli_latencyP95 = True\<rparr>,
      slo = \<lparr>availabilityTarget = double (999 / 10), latencyP95Target = 200\<rparr>,
      autoSim = False, scenario = Calm, cpu = 22, bakeSLI = True, autoTierPresets = True,
      lockExpected = False, lockedSloTarget = double (999 / 10),
      logs = replicate 25 bad_event, alerts = [], score = 0, badges = []\<rparr>"

text \<open>9 failed events among 125, target \<^verbatim>\<open>99.5\<close> (the Tier-1 preset).\<close>

definition nine_bad_state :: app_state where
  "nine_bad_state =
     burning_state\<lparr>slo := \<lparr>availabilityTarget = 199 / 2, latencyP95Target = 200\<rparr>,
                    logs := replicate 9 bad_event @ replicate 116 fast_event\<rparr>"

definition clock0 :: "nat \<Rightarrow> int" where
  "clock0 k = 0"

definition clock_late :: "nat \<Rightarrow> int" where
  "clock_late k = 10000000"

definition clock1 :: "nat \<Rightarrow> int" where
  "clock1 k = 1"

definition uuid0 :: "nat \<Rightarrow> string" where
  "uuid0 k = ''a''"

definition open_alert :: alert where
  "open_alert = \<lparr>atype = ''Saturation (demo)'', severity = P2, message = SaturationMsg 90,
                 alert_id = ''a'', createdAt = 1, ackAt = None, resolvedAt = None\<rparr>"

definition no_partial :: partial where
  "no_partial = \<lparr>part_event_type = None, part_is_successful = None,
                 part_latency_ms = Some 0, part_discount_rate = None\<rparr>"

section \<open>Properties of the rounding\<close>

text \<open>The rounding moves a number by at most half a unit in the last place; the bound below
  also covers the subnormal range.\<close>

lemma ilog2_bounds:
  assumes "0 < x"
  shows "2 powi (ilog2 x) \<le> x \<and> x < 2 powi (ilog2 x + 1)"
proof (cases "1 \<le> x")
  case True
  let ?n = "\<lfloor>x\<rfloor>"
  from True have n: "0 < ?n" by simp
  from bitlen_bounds [OF n] have lo: "2 ^ nat (bitlen ?n - 1) \<le> ?n" and hi: "?n < 2 ^ nat (bitlen ?n)"
    by simp_all
  from n have b: "1 \<le> bitlen ?n" by (simp add: bitlen_alt_def)
  have "(2::rat) powi (bitlen ?n - 1) = 2 ^ nat (bitlen ?n - 1)"
    using b by (simp add: power_int_def)
  also have "\<dots> = of_int (2 ^ nat (bitlen ?n - 1))" by simp
  also have "\<dots> \<le> of_int ?n" using lo by (simp only: of_int_le_iff)
  also have "\<dots> \<le> x" by simp
  finally have l: "2 powi (bitlen ?n - 1) \<le> x" .
  from hi have "?n + 1 \<le> 2 ^ nat (bitlen ?n)" by simp
  then have "(of_int (?n + 1)::rat) \<le> of_int (2 ^ nat (bitlen ?n))" by (simp only: of_int_le_iff)
  moreover have "x < of_int (?n + 1)" by linarith
  ultimately have "x < of_int (2 ^ nat (bitlen ?n))" by linarith
  also have "\<dots> = 2 powi (bitlen ?n)" using b by (simp add: power_int_def)
  finally have "x < 2 powi (bitlen ?n - 1 + 1)" by simp
  with l True show ?thesis by (simp add: ilog2_def)
next
  case False
  let ?y = "1 / x"
  let ?m = "\<lceil>?y\<rceil> - 1"
  from False assms have y: "1 < ?y" by simp
  then have m: "0 < ?m" by linarith
  from bitlen_bounds [OF m] have lo: "2 ^ nat (bitlen ?m - 1) \<le> ?m" and hi: "?m < 2 ^ nat (bitlen ?m)"
    by simp_all
  from m have b: "1 \<le> bitlen ?m" by (simp add: bitlen_alt_def)
  have "?y \<le> of_int (?m + 1)" by (simp add: le_of_int_ceiling)
  also from hi have "?m + 1 \<le> 2 ^ nat (bitlen ?m)" by simp
  then have "(of_int (?m + 1)::rat) \<le> of_int (2 ^ nat (bitlen ?m))" by (simp only: of_int_le_iff)
  finally have yhi: "?y \<le> 2 ^ nat (bitlen ?m)" by simp
  have "(of_int (2 ^ nat (bitlen ?m - 1))::rat) \<le> of_int ?m" using lo by (simp only: of_int_le_iff)
  also have "of_int ?m < ?y" by linarith
  finally have ylo: "2 ^ nat (bitlen ?m - 1) < ?y" by simp
  from yhi assms have "1 / 2 ^ nat (bitlen ?m) \<le> x"
    by (simp add: field_simps)
  moreover have "(2::rat) powi (- bitlen ?m) = 1 / 2 ^ nat (bitlen ?m)"
    using b by (simp add: power_int_def field_simps)
  ultimately have l: "2 powi (- bitlen ?m) \<le> x" by simp
  from ylo assms have "x < 1 / 2 ^ nat (bitlen ?m - 1)"
    by (simp add: field_simps)
  moreover have "(2::rat) powi (- bitlen ?m + 1) = 1 / 2 ^ nat (bitlen ?m - 1)"
  proof -
    have "- bitlen ?m + 1 = - (bitlen ?m - 1)" by simp
    moreover have "(2::rat) powi (- (bitlen ?m - 1)) = 1 / 2 ^ nat (bitlen ?m - 1)"
      using b by (simp add: power_int_def field_simps)
    ultimately show ?thesis by simp
  qed
  ultimately have "x < 2 powi (- bitlen ?m + 1)" by simp
  with l False show ?thesis by (simp add: ilog2_def)
qed

lemma round_half_even_err: "\<bar>of_int (round_half_even y) - y\<bar> \<le> 1 / 2"
proof -
  define d where "d = y - of_int \<lfloor>y\<rfloor>"
  have d: "0 \<le> d" "d < 1" unfolding d_def by linarith+
  consider "d < 1 / 2" | "1 / 2 < d" | "d = 1 / 2 \<and> even \<lfloor>y\<rfloor>" | "d = 1 / 2 \<and> odd \<lfloor>y\<rfloor>"
    by fastforce
  then show ?thesis
  proof cases
    case 1
    then have "round_half_even y = \<lfloor>y\<rfloor>"
      by (simp add: round_half_even_def Let_def d_def)
    with 1 d show ?thesis by (simp add: d_def)
  next
    case 2
    then have "round_half_even y = \<lfloor>y\<rfloor> + 1"
      by (simp add: round_half_even_def Let_def d_def)
    then have "of_int (round_half_even y) - y = 1 - d" by (simp add: d_def)
    with 2 d show ?thesis by simp
  next
    case 3
    then have "round_half_even y = \<lfloor>y\<rfloor>"
      by (simp add: round_half_even_def Let_def d_def)
    then have "of_int (round_half_even y) - y = - d" by (simp add: d_def)
    with 3 show ?thesis by simp
  next
    case 4
    then have "round_half_even y = \<lfloor>y\<rfloor> + 1"
      by (simp add: round_half_even_def Let_def d_def)
    then have "of_int (round_half_even y) - y = 1 - d" by (simp add: d_def)
    with 4 show ?thesis by simp
  qed
qed

lemma double_err: "\<bar>double x - x\<bar> \<le> (\<bar>x\<bar> + 1) / 2 ^ 53"
proof (cases "x = 0")
  case True
  then show ?thesis by (simp add: double_def)
next
  case False
  define k where "k = ilog2 \<bar>x\<bar>"
  define e where "e = max (k - 52) (- 1074)"
  define p :: rat where "p = 2 powi e"
  have p0: "0 < p" by (simp add: p_def)
  from False have "0 < \<bar>x\<bar>" by simp
  from ilog2_bounds [OF this] have kx: "2 powi k \<le> \<bar>x\<bar>" by (simp add: k_def)
  have pb: "p \<le> (\<bar>x\<bar> + 1) / 2 ^ 52"
  proof (cases "k - 52 \<le> - 1074")
    case True
    then have "e = - 1074" by (simp add: e_def)
    then have "p = 2 powi (- 1074)" by (simp add: p_def)
    also have "\<dots> \<le> 2 powi (- 52)" by (rule power_int_increasing) simp_all
    also have "\<dots> = 1 / 2 ^ 52" by (simp add: power_int_def field_simps)
    also have "\<dots> \<le> (\<bar>x\<bar> + 1) / 2 ^ 52" by (simp add: divide_right_mono)
    finally show ?thesis .
  next
    case False
    then have "e = k - 52" by (simp add: e_def)
    then have "p = 2 powi k / 2 powi 52" by (simp add: p_def power_int_diff)
    also have "\<dots> = 2 powi k / 2 ^ 52" by simp
    also have "\<dots> \<le> \<bar>x\<bar> / 2 ^ 52" using kx by (simp add: divide_right_mono)
    also have "\<dots> \<le> (\<bar>x\<bar> + 1) / 2 ^ 52" by (simp add: divide_right_mono)
    finally show ?thesis .
  qed
  have d: "double x = of_int (round_half_even (x / p)) * p"
    using False by (simp add: double_def Let_def p_def e_def k_def)
  have "double x - x = (of_int (round_half_even (x / p)) - x / p) * p"
    unfolding d using p0 by (simp add: field_simps)
  then have "\<bar>double x - x\<bar> = \<bar>of_int (round_half_even (x / p)) - x / p\<bar> * p"
    using p0 by (simp add: abs_mult)
  also have "\<dots> \<le> (1 / 2) * p"
    using round_half_even_err [of "x / p"] p0 by (simp add: mult_right_mono)
  also have "\<dots> \<le> (1 / 2) * ((\<bar>x\<bar> + 1) / 2 ^ 52)"
    using pb by simp
  also have "\<dots> = (\<bar>x\<bar> + 1) / 2 ^ 53" by simp
  finally show ?thesis .
qed

lemma double_err_le:
  assumes "\<bar>x\<bar> \<le> c"
  shows "\<bar>double x - x\<bar> \<le> (c + 1) / 2 ^ 53"
proof -
  from assms have "(\<bar>x\<bar> + 1) / 2 ^ 53 \<le> (c + 1) / 2 ^ 53"
    by (intro divide_right_mono) simp_all
  with double_err [of x] show ?thesis by linarith
qed

subsection \<open>The doubles of the literals and windows of the source\<close>

lemma double_values:
  "double 1 = 1" "double 100 = 100"
  "double (999 / 10) = 3514918771674317 / 35184372088832"
  "double (144 / 10) = 8106479329266893 / 562949953421312"
  "double (144 / 100) = 3242591731706757 / 2251799813685248"
  "double (36 / 5) = 8106479329266893 / 1125899906842624"
  "double (72 / 5) = 8106479329266893 / 562949953421312"
  "double (36 / 25) = 3242591731706757 / 2251799813685248"
  by code_simp+

lemma windows:
  "minutes 5 = 5" "minutes 30 = 30" "hours 1 = 60" "hours 2 = 120" "hours 6 = 360"
  "hours 24 = 1440" "days 3 = 4320"
  by code_simp+

lemma cutoffs_at_0:
  "fsub 0 (fmul 5 1000) = - 5000" "fsub 0 (fmul 30 1000) = - 30000"
  "fsub 0 (fmul 60 1000) = - 60000" "fsub 0 (fmul 120 1000) = - 120000"
  "fsub 0 (fmul 360 1000) = - 360000" "fsub 0 (fmul 1440 1000) = - 1440000"
  "fsub 0 (fmul 4320 1000) = - 4320000"
  by code_simp+

lemma cutoffs_late:
  "fsub 10000000 (fmul 5 1000) = 9995000" "fsub 10000000 (fmul 30 1000) = 9970000"
  "fsub 10000000 (fmul 60 1000) = 9940000" "fsub 10000000 (fmul 120 1000) = 9880000"
  "fsub 10000000 (fmul 360 1000) = 9640000" "fsub 10000000 (fmul 1440 1000) = 8560000"
  "fsub 10000000 (fmul 4320 1000) = 5680000"
  by code_simp+

lemma budget_999: "fsub 100 (double (999 / 10)) = 3518437208883 / 35184372088832"
  by code_simp

lemma burn_999:
  "fdiv 100 (fsub 100 (double (999 / 10))) = 2199023255552125 / 2199023255552"
  "fdiv 100 (3518437208883 / 35184372088832) = 2199023255552125 / 2199023255552"
  by code_simp+

lemma nine_of_125:
  "fmul (fdiv 9 125) 100 = 2026619832316723 / 281474976710656"
  "fsub 100 (199 / 2) = 1 / 2"
  "fdiv (2026619832316723 / 281474976710656) (1 / 2) = 2026619832316723 / 140737488355328"
  "fdiv (fmul 100 9) 125 = 8106479329266893 / 1125899906842624"
  by code_simp+

lemma expected_999:
  "fmul (fsub 100 (double (999 / 10))) (double (144 / 10)) = 3242591731706573 / 2251799813685248"
  "fmul (fsub 100 (double (999 / 10))) (double (72 / 5)) = 3242591731706573 / 2251799813685248"
  by code_simp+

lemma expected_95: "fmul (fsub 100 (clamp 95 90 100)) (double (144 / 10)) = 72"
  by code_simp

lemma default_latency: "fadd 100 (fmul (1 / 2) 200) = 200"
  by code_simp

section \<open>The goodness policy (C3)\<close>

text \<open>
  C3. For every event \<open>e\<close> and policy, \<open>goodByPolicy\<close> holds exactly when \<open>e\<close> is
  successful and either \<open>bakeSLI\<close> is off or the latency of \<open>e\<close> is at most the current
  latency target. With \<open>bakeSLI\<close> on and target 200, a successful event of latency 400 is
  bad and one of latency 100 is good; with \<open>bakeSLI\<close> off both are good. The verdict does
  not read the compliance snapshot frozen in the event, and it follows the target that is
  current when it is evaluated.
\<close>

theorem goodByPolicy_iff:
  "(goodByPolicy st (Some e) \<longleftrightarrow>
      is_successful e \<and> (\<not> bakeSLI st \<or> latency_ms e \<le> latencyP95Target (slo st)))
   \<and> (bakeSLI st \<and> latencyP95Target (slo st) = 200 \<longrightarrow>
        \<not> goodByPolicy st (Some slow_event) \<and> goodByPolicy st (Some fast_event))
   \<and> (\<not> bakeSLI st \<longrightarrow> goodByPolicy st (Some slow_event) \<and> goodByPolicy st (Some fast_event))
   \<and> goodByPolicy st (Some (e\<lparr>slo_compliance := c\<rparr>)) = goodByPolicy st (Some e)
   \<and> goodByPolicy (st\<lparr>slo := (slo st)\<lparr>latencyP95Target := t\<rparr>\<rparr>) (Some e)
       = (is_successful e \<and> (\<not> bakeSLI st \<or> latency_ms e \<le> t))"
  by (simp add: goodByPolicy_def slow_event_def fast_event_def)

theorem goodByPolicy_iff_witness:
  "\<not> goodByPolicy burning_state (Some slow_event) \<and> goodByPolicy burning_state (Some fast_event)
   \<and> is_slo_compliant (slo_compliance slow_event)"
  using goodByPolicy_iff [of burning_state slow_event "slo_compliance slow_event" 200]
  by (simp add: burning_state_def slow_event_def)

section \<open>Classification (C5)\<close>

text \<open>
  C5. For every candidate event and policy, \<open>computeSloCompliance\<close> yields the violations
  \<open>[''latency'']\<close> exactly when the latency is strictly greater than the current latency
  target and the empty list otherwise, and \<open>is_slo_compliant\<close> is true exactly when the
  violations are empty. The function is total (it has no error result), and the event built
  from a base keeps every field of the base unchanged.
\<close>

theorem computeSloCompliance_spec:
  "slo_violations (computeSloCompliance st b)
     = (if latency_ms b > latencyP95Target (slo st) then [''latency''] else [])
   \<and> (is_slo_compliant (computeSloCompliance st b)
        \<longleftrightarrow> slo_violations (computeSloCompliance st b) = [])
   \<and> slo_thresholds (computeSloCompliance st b) = latencyP95Target (slo st)
   \<and> slo_compliance (manual_event st dnow r part) = computeSloCompliance st (manual_base dnow r part)
   \<and> base_event.truncate (manual_event st dnow r part) = manual_base dnow r part"
  by (simp add: computeSloCompliance_def manual_event_def Let_def base_event.truncate_def)

theorem computeSloCompliance_spec_witness:
  "slo_violations (computeSloCompliance burning_state slow_event) = [''latency'']
   \<and> \<not> is_slo_compliant (computeSloCompliance burning_state slow_event)
   \<and> slo_violations (computeSloCompliance burning_state fast_event) = []
   \<and> is_slo_compliant (computeSloCompliance burning_state fast_event)"
  using computeSloCompliance_spec [of burning_state slow_event 0 0 no_partial]
    computeSloCompliance_spec [of burning_state fast_event 0 0 no_partial]
  by (simp add: burning_state_def slow_event_def fast_event_def)

section \<open>Independence of the candidates from the rest of the state\<close>

lemma goodByPolicy_cong:
  "slo st = slo st' \<Longrightarrow> bakeSLI st = bakeSLI st' \<Longrightarrow> goodByPolicy st e = goodByPolicy st' e"
  by (cases e) (simp_all add: goodByPolicy_def)

lemma burnStats_cong:
  assumes "logs st = logs st'" "slo st = slo st'" "bakeSLI st = bakeSLI st'"
  shows "burnStats st d w = burnStats st' d w"
proof -
  have g: "goodByPolicy st = goodByPolicy st'"
    by (rule ext) (rule goodByPolicy_cong [OF assms(2,3)])
  have t: "sloTarget st = sloTarget st'"
    by (simp add: sloTarget_def assms(2))
  show ?thesis
    unfolding burnStats_def g t assms(1) ..
qed

lemma burn_loop_cong:
  assumes "logs st = logs st'" "slo st = slo st'" "bakeSLI st = bakeSLI st'"
  shows "burn_loop st clk k ps = burn_loop st' clk k ps"
proof (induction ps arbitrary: k)
  case Nil
  show ?case by simp
next
  case (Cons p ps)
  have s: "burnStats st (clk k) (short p) = burnStats st' (clk k) (short p)"
    and l: "burnStats st (clk (Suc k)) (long p) = burnStats st' (clk (Suc k)) (long p)"
    by (rule burnStats_cong [OF assms])+
  show ?case
    unfolding burn_loop.simps s l Cons.IH assms(3) ..
qed

lemma windowLogs_cong: "logs st = logs st' \<Longrightarrow> windowLogs st now = windowLogs st' now"
  by (simp add: windowLogs_def)

lemma availability_cong:
  assumes "logs st = logs st'" "slo st = slo st'" "bakeSLI st = bakeSLI st'"
  shows "availability st now = availability st' now"
proof -
  have g: "goodByPolicy st = goodByPolicy st'"
    by (rule ext) (rule goodByPolicy_cong [OF assms(2,3)])
  show ?thesis
    unfolding availability_def g windowLogs_cong [OF assms(1)] ..
qed

lemma demo_checks_cong:
  assumes "logs st = logs st'" "slo st = slo st'" "bakeSLI st = bakeSLI st'"
    and "sli st = sli st'" "tier st = tier st'" "cpu st = cpu st'"
  shows "demo_checks st now = demo_checks st' now"
proof -
  have t: "sloTarget st = sloTarget st'"
    by (simp add: sloTarget_def assms(2))
  show ?thesis
    unfolding demo_checks_def p95_def promoLastMin_def t availability_cong [OF assms(1-3)]
      windowLogs_cong [OF assms(1)] assms(2,4,5,6) ..
qed

lemma newAlerts_cong:
  assumes "logs st = logs st'" "slo st = slo st'" "bakeSLI st = bakeSLI st'"
    and "sli st = sli st'" "tier st = tier st'" "cpu st = cpu st'"
  shows "newAlerts st now clk = newAlerts st' now clk"
  unfolding newAlerts_def burn_loop_cong [OF assms(1-3)] demo_checks_cong [OF assms] assms(5) ..

section \<open>Two histories, evaluated\<close>

lemma burnStats_all_bad:
  assumes "logs st \<noteq> []"
    and "\<forall>e\<in>set (logs st). \<not> goodByPolicy st (Some e)
           \<and> fsub (of_int d) (fmul w 1000) \<le> of_int (ts e)"
  shows "burnStats st d w = \<lparr>total_n = length (logs st), badPct = 100,
           burn = (if 0 < fsub 100 (availabilityTarget (slo st))
                   then Num (fdiv 100 (fsub 100 (availabilityTarget (slo st))))
                   else Infinity)\<rparr>"
proof -
  have f1: "filter (\<lambda>l. fsub (of_int d) (fmul w 1000) \<le> of_int (ts l)) (logs st) = logs st"
    using assms(2) by (simp add: filter_id_conv)
  have f2: "filter (\<lambda>l. \<not> goodByPolicy st (Some l)) (logs st) = logs st"
    using assms(2) by (simp add: filter_id_conv)
  have q: "fmul (fdiv (of_nat (length (logs st))) (of_nat (length (logs st)))) 100 = 100"
    using assms(1) by (simp add: fdiv_def fmul_def double_values)
  show ?thesis
    unfolding burnStats_def Let_def f1 f2 q sloTarget_def using assms(1) by simp
qed

lemma burning_short:
  assumes "fsub 0 (fmul w 1000) \<le> 0"
  shows "burnStats burning_state 0 w
     = \<lparr>total_n = 25, badPct = 100, burn = Num (2199023255552125 / 2199023255552)\<rparr>"
proof -
  have l: "logs burning_state = replicate 25 bad_event"
    and t: "availabilityTarget (slo burning_state) = double (999 / 10)"
    by (simp_all add: burning_state_def)
  have "burnStats burning_state 0 w = \<lparr>total_n = length (logs burning_state), badPct = 100,
           burn = (if 0 < fsub 100 (availabilityTarget (slo burning_state))
                   then Num (fdiv 100 (fsub 100 (availabilityTarget (slo burning_state))))
                   else Infinity)\<rparr>"
  proof (rule burnStats_all_bad)
    show "logs burning_state \<noteq> []" unfolding l by simp
    show "\<forall>e\<in>set (logs burning_state). \<not> goodByPolicy burning_state (Some e)
           \<and> fsub (of_int 0) (fmul w 1000) \<le> of_int (ts e)"
      unfolding l using assms by (simp add: goodByPolicy_def bad_event_def)
  qed
  then show ?thesis
    unfolding t burn_999(1) by (simp add: l budget_999)
qed

lemma burning_late:
  assumes "0 < fsub 10000000 (fmul w 1000)"
  shows "burnStats burning_state 10000000 w = \<lparr>total_n = 0, badPct = 0, burn = Num 0\<rparr>"
  using assms by (simp add: burning_state_def bad_event_def burnStats_def)

lemma nine_short:
  assumes "fsub 0 (fmul w 1000) \<le> 0"
  shows "burnStats nine_bad_state 0 w
     = \<lparr>total_n = 125, badPct = 2026619832316723 / 281474976710656,
        burn = Num (2026619832316723 / 140737488355328)\<rparr>"
proof -
  have l: "logs nine_bad_state = replicate 9 bad_event @ replicate 116 fast_event"
    and t: "sloTarget nine_bad_state = 199 / 2"
    by (simp_all add: nine_bad_state_def sloTarget_def)
  have g: "\<not> goodByPolicy nine_bad_state (Some bad_event)" "goodByPolicy nine_bad_state (Some fast_event)"
    by (simp_all add: goodByPolicy_def bad_event_def fast_event_def slow_event_def
        nine_bad_state_def burning_state_def)
  have ts: "ts bad_event = 0" "ts fast_event = 0"
    by (simp_all add: bad_event_def fast_event_def slow_event_def)
  have f1: "filter (\<lambda>l. fsub (of_int 0) (fmul w 1000) \<le> of_int (ts l)) (logs nine_bad_state)
      = logs nine_bad_state"
    unfolding l using assms by (simp add: filter_replicate ts)
  have f2: "filter (\<lambda>l. \<not> goodByPolicy nine_bad_state (Some l)) (logs nine_bad_state)
      = replicate 9 bad_event"
    unfolding l by (simp add: filter_replicate g)
  show ?thesis
    unfolding burnStats_def Let_def f1 f2 t
    by (simp add: l nine_of_125)
qed


lemma pairs_Tier1:
  "pairs Tier1 =
     [\<lparr>key = ''Page: 1h & 5m @14.4x'', short = 5, long = 60, thr = double (144 / 10),
       pseverity = P0\<rparr>,
      \<lparr>key = ''Page: 6h & 30m @6x'', short = 30, long = 360, thr = 6, pseverity = P0\<rparr>,
      \<lparr>key = ''Ticket: 24h & 2h @3x'', short = 120, long = 1440, thr = 3, pseverity = P2\<rparr>,
      \<lparr>key = ''Ticket: 3d & 6h @1x'', short = 360, long = 4320, thr = 1, pseverity = P2\<rparr>]"
  by (simp add: pairs_def pageA_def pageB_def ticketA_def ticketB_def windows)

lemma burning_fields: "tier burning_state = Tier1" "bakeSLI burning_state = True"
  "alerts burning_state = []"
  by (simp_all add: burning_state_def)

lemma nine_fields: "tier nine_bad_state = Tier1" "bakeSLI nine_bad_state = True"
  by (simp_all add: nine_bad_state_def burning_state_def)

lemma burning_window: "windowLogs burning_state 0 = replicate 25 bad_event"
  by (simp add: windowLogs_def burning_state_def bad_event_def windowMs_def)

lemma burning_demo: "demo_checks burning_state 0 = []"
  unfolding demo_checks_def promoLastMin_def burning_window
  by (simp add: burning_state_def bad_event_def)

lemma hot_demo:
  "demo_checks (burning_state\<lparr>cpu := 90\<rparr>) 0
     = [\<lparr>atype = ''Saturation (demo)'', severity = P2, message = SaturationMsg 90\<rparr>]"
proof -
  have w: "windowLogs (burning_state\<lparr>cpu := 90\<rparr>) 0 = replicate 25 bad_event"
    using burning_window by (simp add: windowLogs_def)
  show ?thesis
    unfolding demo_checks_def promoLastMin_def w
    by (simp add: burning_state_def bad_event_def)
qed

lemma burning_types:
  "map atype (newAlerts burning_state 0 clock0)
     = [''Page: 1h & 5m @14.4x'', ''Page: 6h & 30m @6x'',
        ''Ticket: 24h & 2h @3x'', ''Ticket: 3d & 6h @1x'']"
  unfolding newAlerts_def burning_demo burning_fields pairs_Tier1
  by (simp add: clock0_def burning_short cutoffs_at_0 fires_def double_values)

lemma late_newAlerts: "newAlerts burning_state 0 clock_late = []"
  unfolding newAlerts_def burning_demo burning_fields pairs_Tier1
  by (simp add: clock_late_def burning_late cutoffs_late fires_def)

lemma nine_pageA:
  "\<not> fires (pairs Tier1 ! 0) (burnStats nine_bad_state 0 5) (burnStats nine_bad_state 0 60)"
  unfolding pairs_Tier1
  by (simp add: nine_short cutoffs_at_0 fires_def double_values)

section \<open>Windowed aggregation (C2)\<close>

lemma badPct_tolerance:
  assumes "b \<le> n" "0 < n"
  shows "\<bar>fmul (fdiv (of_nat b) (of_nat n)) 100 - 100 * of_nat b / of_nat n\<bar> \<le> 1 / 10 ^ 13"
proof -
  define q :: rat where "q = of_nat b / of_nat n"
  define q' where "q' = double q"
  define p where "p = double (q' * 100)"
  define u :: rat where "u = 1 / 2 ^ 53"
  have u: "0 < u" "u \<le> 1 / 2" "401 * u \<le> 1 / 10 ^ 13"
    by (simp_all add: u_def)
  have q: "0 \<le> q" "q \<le> 1"
    using assms by (simp_all add: q_def)
  then have "\<bar>q\<bar> \<le> 1" by simp
  from double_err_le [OF this] have e1: "\<bar>q' - q\<bar> \<le> 2 * u"
    by (simp add: q'_def u_def)
  with q u have "\<bar>q'\<bar> \<le> 2" by linarith
  then have "\<bar>q' * 100\<bar> \<le> 200" by (simp add: abs_mult)
  from double_err_le [OF this] have e2: "\<bar>p - q' * 100\<bar> \<le> 201 * u"
    by (simp add: p_def u_def)
  have "p - 100 * q = (p - q' * 100) + 100 * (q' - q)" by simp
  with e1 e2 have "\<bar>p - 100 * q\<bar> \<le> 401 * u" by linarith
  with u have "\<bar>p - 100 * q\<bar> \<le> 1 / 10 ^ 13" by linarith
  moreover have "fmul (fdiv (of_nat b) (of_nat n)) 100 = p"
    by (simp add: fmul_def fdiv_def p_def q'_def q_def)
  moreover have "100 * of_nat b / of_nat n = 100 * q"
    by (simp add: q_def)
  ultimately show ?thesis by simp
qed

text \<open>
  C2, amended. For every history, policy and duration \<open>burnStats\<close> is defined. When the
  filtered window holds no event it returns exactly \<open>total = 0\<close>, \<open>badPct = 0\<close>,
  \<open>burn = 0\<close>, a finite number, whatever the error budget is. When the window is not
  empty, \<open>total\<close> is the number of events in the window, \<open>badPct\<close> is
  \<open>(badCount / total) * 100\<close> and \<open>burn\<close> is \<open>badPct / (100 - availabilityTarget)\<close> if
  that budget is positive and positive infinity otherwise, where every operation is rounded
  to the nearest double; \<open>badPct\<close> therefore agrees with the exact \<open>100 * badCount / total\<close>
  up to rounding only (within \<open>10\<^sup>-\<^sup>1\<^sup>3\<close>).
\<close>

theorem burnStats_spec:
  "(filter (\<lambda>l. fsub (of_int dnow) (fmul w 1000) \<le> of_int (ts l)) (logs st) = [] \<longrightarrow>
      burnStats st dnow w = \<lparr>total_n = 0, badPct = 0, burn = Num 0\<rparr>)
   \<and> (logs st = [] \<longrightarrow> burnStats st dnow w = \<lparr>total_n = 0, badPct = 0, burn = Num 0\<rparr>)
   \<and> (filter (\<lambda>l. fsub (of_int dnow) (fmul w 1000) \<le> of_int (ts l)) (logs st) \<noteq> [] \<longrightarrow>
        total_n (burnStats st dnow w)
          = length (filter (\<lambda>l. fsub (of_int dnow) (fmul w 1000) \<le> of_int (ts l)) (logs st))
        \<and> badPct (burnStats st dnow w)
          = fmul (fdiv (of_nat (length (filter (\<lambda>l. \<not> goodByPolicy st (Some l))
                (filter (\<lambda>l. fsub (of_int dnow) (fmul w 1000) \<le> of_int (ts l)) (logs st)))))
              (of_nat (total_n (burnStats st dnow w)))) 100
        \<and> \<bar>badPct (burnStats st dnow w)
             - 100 * of_nat (length (filter (\<lambda>l. \<not> goodByPolicy st (Some l))
                (filter (\<lambda>l. fsub (of_int dnow) (fmul w 1000) \<le> of_int (ts l)) (logs st))))
               / of_nat (total_n (burnStats st dnow w))\<bar> \<le> 1 / 10 ^ 13
        \<and> burn (burnStats st dnow w)
          = (if 0 < fsub 100 (availabilityTarget (slo st))
             then Num (fdiv (badPct (burnStats st dnow w)) (fsub 100 (availabilityTarget (slo st))))
             else Infinity))"
proof -
  let ?slice = "filter (\<lambda>l. fsub (of_int dnow) (fmul w 1000) \<le> of_int (ts l)) (logs st)"
  let ?bad = "length (filter (\<lambda>l. \<not> goodByPolicy st (Some l)) ?slice)"
  have empty: "?slice = [] \<longrightarrow> burnStats st dnow w = \<lparr>total_n = 0, badPct = 0, burn = Num 0\<rparr>"
    by (simp add: burnStats_def)
  have nolog: "logs st = [] \<longrightarrow> burnStats st dnow w = \<lparr>total_n = 0, badPct = 0, burn = Num 0\<rparr>"
    by (simp add: burnStats_def)
  have full: "total_n (burnStats st dnow w) = length ?slice
        \<and> badPct (burnStats st dnow w)
            = fmul (fdiv (of_nat ?bad) (of_nat (total_n (burnStats st dnow w)))) 100
        \<and> \<bar>badPct (burnStats st dnow w)
             - 100 * of_nat ?bad / of_nat (total_n (burnStats st dnow w))\<bar> \<le> 1 / 10 ^ 13
        \<and> burn (burnStats st dnow w)
          = (if 0 < fsub 100 (availabilityTarget (slo st))
             then Num (fdiv (badPct (burnStats st dnow w)) (fsub 100 (availabilityTarget (slo st))))
             else Infinity)"
    if ne: "?slice \<noteq> []"
  proof -
    from ne have t: "total_n (burnStats st dnow w) = length ?slice"
      by (simp add: burnStats_def Let_def)
    from ne have b: "badPct (burnStats st dnow w) = fmul (fdiv (of_nat ?bad) (of_nat (length ?slice))) 100"
      by (simp add: burnStats_def Let_def)
    from ne have u: "burn (burnStats st dnow w)
          = (if 0 < fsub 100 (availabilityTarget (slo st))
             then Num (fdiv (badPct (burnStats st dnow w)) (fsub 100 (availabilityTarget (slo st))))
             else Infinity)"
      by (simp add: burnStats_def Let_def sloTarget_def)
    have "?bad \<le> length ?slice" by (rule length_filter_le)
    moreover from ne have "0 < length ?slice" by simp
    ultimately have "\<bar>fmul (fdiv (of_nat ?bad) (of_nat (length ?slice))) 100
        - 100 * of_nat ?bad / of_nat (length ?slice)\<bar> \<le> 1 / 10 ^ 13"
      by (rule badPct_tolerance)
    with t b u show ?thesis by simp
  qed
  from empty nolog full show ?thesis by blast
qed

theorem burnStats_spec_witness:
  "burnStats burning_state 0 5
     = \<lparr>total_n = 25, badPct = 100, burn = Num (2199023255552125 / 2199023255552)\<rparr>
   \<and> burnStats (burning_state\<lparr>logs := []\<rparr>) 0 5 = \<lparr>total_n = 0, badPct = 0, burn = Num 0\<rparr>
   \<and> burn (burnStats (burning_state\<lparr>slo := \<lparr>availabilityTarget = 100, latencyP95Target = 200\<rparr>\<rparr>) 0 5)
       = Infinity"
proof -
  let ?full = "burning_state\<lparr>slo := \<lparr>availabilityTarget = 100, latencyP95Target = 200\<rparr>\<rparr>"
  have ne: "filter (\<lambda>l. fsub (of_int 0) (fmul 5 1000) \<le> of_int (ts l)) (logs ?full) \<noteq> []"
    by (simp add: cutoffs_at_0 burning_state_def bad_event_def)
  have z: "\<not> 0 < fsub 100 (availabilityTarget (slo ?full))"
    by (simp add: fsub_def double_def)
  from burnStats_spec [of 0 5 ?full] ne z
  have inf: "burn (burnStats ?full 0 5) = Infinity" by simp
  from burnStats_spec [of 0 5 "burning_state\<lparr>logs := []\<rparr>"]
  have emp: "burnStats (burning_state\<lparr>logs := []\<rparr>) 0 5 = \<lparr>total_n = 0, badPct = 0, burn = Num 0\<rparr>"
    by simp
  from inf emp burning_short [of 5] show ?thesis
    by (simp add: cutoffs_at_0)
qed

text \<open>
  C2 as stated fails: with 9 bad events among 125 the source computes \<open>(9 / 125) * 100\<close> in
  doubles, which is \<^verbatim>\<open>7.199999999999999\<close> and neither the exact \<open>100 * 9 / 125\<close> nor the
  double of \<^verbatim>\<open>100 * 9 / 125\<close>.
\<close>

theorem burnStats_exact_fails:
  "logs nine_bad_state = replicate 9 bad_event @ replicate 116 fast_event
   \<and> \<not> goodByPolicy nine_bad_state (Some bad_event)
   \<and> goodByPolicy nine_bad_state (Some fast_event)
   \<and> total_n (burnStats nine_bad_state 0 5) = 125
   \<and> badPct (burnStats nine_bad_state 0 5) = 2026619832316723 / 281474976710656
   \<and> badPct (burnStats nine_bad_state 0 5) \<noteq> 100 * 9 / 125
   \<and> badPct (burnStats nine_bad_state 0 5) \<noteq> fdiv (fmul 100 9) 125"
proof -
  have "logs nine_bad_state = replicate 9 bad_event @ replicate 116 fast_event"
    by (simp add: nine_bad_state_def)
  moreover have "\<not> goodByPolicy nine_bad_state (Some bad_event)"
    "goodByPolicy nine_bad_state (Some fast_event)"
    by (simp_all add: goodByPolicy_def bad_event_def fast_event_def slow_event_def
        nine_bad_state_def burning_state_def)
  ultimately show ?thesis
    by (simp add: nine_short cutoffs_at_0 nine_of_125)
qed

section \<open>Expected bad percentage and the lock (C6)\<close>

text \<open>
  C6, amended. \<open>expectedBadPercent target m\<close> is \<open>(100 - target) * m\<close> in double arithmetic
  for every target and multiplier, so \<open>expectedBadPercent 99.9 14.4\<close> is 1.44 within
  floating tolerance (less than \<open>10\<^sup>-\<^sup>9\<close> away). The display evaluates it at
  \<open>lockedSloTarget\<close> when \<open>lockExpected\<close> is on and at the live \<open>availabilityTarget\<close>
  otherwise. While locked, a change of the target (followed by the effect that tracks it)
  does not change the displayed value; after unlocking the value is the one of the live
  target, and follows the next change of it. The lock and the locked target never change
  the list of candidate alerts.
\<close>

theorem expectedBadPercent_lock:
  "expectedBadPercent t m = fmul (fsub 100 t) m
   \<and> \<bar>expectedBadPercent (double (999 / 10)) (double (144 / 10)) - 144 / 100\<bar> < 1 / 10 ^ 9
   \<and> expectedSlo st = (if lockExpected st then lockedSloTarget st else availabilityTarget (slo st))
   \<and> expBadPctAt st m = fmul (fsub 100 (expectedSlo st)) m
   \<and> (lockExpected st \<longrightarrow> expBadPctAt (lockEffect (st\<lparr>slo := s'\<rparr>)) m = expBadPctAt st m)
   \<and> (lockExpected st \<longrightarrow> expBadPctAt (onAvailabilityInput v st) m = expBadPctAt st m)
   \<and> expBadPctAt (onLockToggle False st) m = expectedBadPercent (availabilityTarget (slo st)) m
   \<and> expBadPctAt (onAvailabilityInput v (onLockToggle False st)) m
       = expectedBadPercent (clamp v 90 100) m
   \<and> newAlerts (st\<lparr>lockExpected := b, lockedSloTarget := t'\<rparr>) now clk = newAlerts st now clk"
proof -
  have fire: "newAlerts (st\<lparr>lockExpected := b, lockedSloTarget := t'\<rparr>) now clk = newAlerts st now clk"
    by (rule newAlerts_cong) simp_all
  have tol: "\<bar>expectedBadPercent (double (999 / 10)) (double (144 / 10)) - 144 / 100\<bar> < 1 / 10 ^ 9"
    unfolding expectedBadPercent_def expected_999 by simp
  have rest: "expectedBadPercent t m = fmul (fsub 100 t) m
   \<and> expectedSlo st = (if lockExpected st then lockedSloTarget st else availabilityTarget (slo st))
   \<and> expBadPctAt st m = fmul (fsub 100 (expectedSlo st)) m
   \<and> (lockExpected st \<longrightarrow> expBadPctAt (lockEffect (st\<lparr>slo := s'\<rparr>)) m = expBadPctAt st m)
   \<and> (lockExpected st \<longrightarrow> expBadPctAt (onAvailabilityInput v st) m = expBadPctAt st m)
   \<and> expBadPctAt (onLockToggle False st) m = expectedBadPercent (availabilityTarget (slo st)) m
   \<and> expBadPctAt (onAvailabilityInput v (onLockToggle False st)) m
       = expectedBadPercent (clamp v 90 100) m"
    by (simp add: expectedBadPercent_def expectedSlo_def expBadPctAt_def lockEffect_def
        onAvailabilityInput_def onLockToggle_def sloTarget_def)
  from rest tol fire show ?thesis by blast
qed

theorem expectedBadPercent_lock_witness:
  "expBadPctAt (onAvailabilityInput 95 (burning_state\<lparr>lockExpected := True\<rparr>)) (double (144 / 10))
     = 3242591731706573 / 2251799813685248
   \<and> expBadPctAt (onAvailabilityInput 95 (onLockToggle False (burning_state\<lparr>lockExpected := True\<rparr>)))
        (double (144 / 10)) = 72"
proof -
  let ?st = "burning_state\<lparr>lockExpected := True\<rparr>"
  note th = expectedBadPercent_lock [where st = ?st and m = "double (144 / 10)" and v = 95]
  have l: "lockExpected ?st" by simp
  have "expBadPctAt ?st (double (144 / 10)) = 3242591731706573 / 2251799813685248"
    unfolding expBadPctAt_def expectedSlo_def expectedBadPercent_def
    by (simp add: burning_state_def expected_999)
  with th l have a: "expBadPctAt (onAvailabilityInput 95 ?st) (double (144 / 10))
      = 3242591731706573 / 2251799813685248"
    by simp
  from th have "expBadPctAt (onAvailabilityInput 95 (onLockToggle False ?st)) (double (144 / 10))
      = expectedBadPercent (clamp 95 90 100) (double (144 / 10))"
    by blast
  also have "\<dots> = 72"
    unfolding expectedBadPercent_def by (rule expected_95)
  finally show ?thesis using a by simp
qed

text \<open>
  C6 as stated fails at its own example: the source computes \<^verbatim>\<open>1.4399999999999182\<close>, which
  is neither the exact 1.44 nor the double of the literal \<^verbatim>\<open>1.44\<close>.
\<close>

theorem expectedBadPercent_not_exact:
  "expectedBadPercent (double (999 / 10)) (double (144 / 10)) = 3242591731706573 / 2251799813685248
   \<and> expectedBadPercent (double (999 / 10)) (double (144 / 10)) \<noteq> 144 / 100
   \<and> expectedBadPercent (double (999 / 10)) (double (144 / 10)) \<noteq> double (144 / 100)"
  unfolding expectedBadPercent_def expected_999 by (simp add: double_values)

section \<open>Alert lifecycle (C7)\<close>

lemma ackAlert_nth:
  "k < length arr \<Longrightarrow>
   ackAlert clk i arr ! k
     = (if alert_id (arr ! k) = i \<and> \<not> truthy (ackAt (arr ! k))
        then (arr ! k)\<lparr>ackAt := Some (clk k)\<rparr> else arr ! k)"
  by (simp add: ackAlert_def nth_enumerate_eq)

lemma resolveAlert_nth:
  "k < length arr \<Longrightarrow>
   resolveAlert clk i arr ! k
     = (if alert_id (arr ! k) = i \<and> \<not> truthy (resolvedAt (arr ! k))
        then (arr ! k)\<lparr>resolvedAt := Some (clk k)\<rparr> else arr ! k)"
  by (simp add: resolveAlert_def nth_enumerate_eq)

lemma length_ackAlert: "length (ackAlert clk i arr) = length arr"
  by (simp add: ackAlert_def)

lemma length_resolveAlert: "length (resolveAlert clk i arr) = length arr"
  by (simp add: resolveAlert_def)

lemma ackAlert_noop:
  assumes "\<forall>a\<in>set arr. alert_id a = i \<longrightarrow> truthy (ackAt a)"
  shows "ackAlert clk i arr = arr"
proof (rule nth_equalityI)
  show "length (ackAlert clk i arr) = length arr" by (rule length_ackAlert)
next
  fix k assume "k < length (ackAlert clk i arr)"
  then have k: "k < length arr" by (simp add: length_ackAlert)
  then have "arr ! k \<in> set arr" by simp
  with assms have "alert_id (arr ! k) = i \<longrightarrow> truthy (ackAt (arr ! k))" by blast
  then show "ackAlert clk i arr ! k = arr ! k"
    by (auto simp: ackAlert_nth [OF k])
qed

lemma resolveAlert_noop:
  assumes "\<forall>a\<in>set arr. alert_id a = i \<longrightarrow> truthy (resolvedAt a)"
  shows "resolveAlert clk i arr = arr"
proof (rule nth_equalityI)
  show "length (resolveAlert clk i arr) = length arr" by (rule length_resolveAlert)
next
  fix k assume "k < length (resolveAlert clk i arr)"
  then have k: "k < length arr" by (simp add: length_resolveAlert)
  then have "arr ! k \<in> set arr" by simp
  with assms have "alert_id (arr ! k) = i \<longrightarrow> truthy (resolvedAt (arr ! k))" by blast
  then show "resolveAlert clk i arr ! k = arr ! k"
    by (auto simp: resolveAlert_nth [OF k])
qed

lemma ackAlert_acked:
  assumes "\<forall>k<length arr. clk k \<noteq> 0"
  shows "\<forall>a\<in>set (ackAlert clk i arr). alert_id a = i \<longrightarrow> truthy (ackAt a)"
proof
  fix a assume "a \<in> set (ackAlert clk i arr)"
  then obtain k where k: "k < length arr" and a: "a = ackAlert clk i arr ! k"
    by (auto simp: in_set_conv_nth length_ackAlert)
  from assms k have "clk k \<noteq> 0" by simp
  then show "alert_id a = i \<longrightarrow> truthy (ackAt a)"
    unfolding a ackAlert_nth [OF k] by auto
qed

lemma resolveAlert_resolved:
  assumes "\<forall>k<length arr. clk k \<noteq> 0"
  shows "\<forall>a\<in>set (resolveAlert clk i arr). alert_id a = i \<longrightarrow> truthy (resolvedAt a)"
proof
  fix a assume "a \<in> set (resolveAlert clk i arr)"
  then obtain k where k: "k < length arr" and a: "a = resolveAlert clk i arr ! k"
    by (auto simp: in_set_conv_nth length_resolveAlert)
  from assms k have "clk k \<noteq> 0" by simp
  then show "alert_id a = i \<longrightarrow> truthy (resolvedAt a)"
    unfolding a resolveAlert_nth [OF k] by auto
qed

text \<open>
  C7. For every alert list and identifier, \<open>ackAlert\<close> rewrites an alert only if it has
  that identifier and its acknowledgement timestamp is unset, and then only that
  timestamp; \<open>resolveAlert\<close> does the same with the resolution timestamp. A call on a list
  whose alerts with that identifier are already acknowledged (resolved) returns the list
  unchanged, so a second call after a first one changes nothing, and a call with an
  identifier that no alert carries returns the list unchanged. A timestamp counts as set
  when it is truthy, so the second-call statement supposes that the clock of the first call
  did not read 0.
\<close>

theorem lifecycle_idempotent:
  "length (ackAlert clk i arr) = length arr
   \<and> (\<forall>k<length arr. ackAlert clk i arr ! k
         = (if alert_id (arr ! k) = i \<and> \<not> truthy (ackAt (arr ! k))
            then (arr ! k)\<lparr>ackAt := Some (clk k)\<rparr> else arr ! k))
   \<and> ((\<forall>a\<in>set arr. alert_id a = i \<longrightarrow> truthy (ackAt a)) \<longrightarrow> ackAlert clk i arr = arr)
   \<and> ((\<forall>k<length arr. clk k \<noteq> 0) \<longrightarrow>
        ackAlert clk' i (ackAlert clk i arr) = ackAlert clk i arr)
   \<and> (i \<notin> alert_id ` set arr \<longrightarrow> ackAlert clk i arr = arr)
   \<and> length (resolveAlert clk i arr) = length arr
   \<and> (\<forall>k<length arr. resolveAlert clk i arr ! k
         = (if alert_id (arr ! k) = i \<and> \<not> truthy (resolvedAt (arr ! k))
            then (arr ! k)\<lparr>resolvedAt := Some (clk k)\<rparr> else arr ! k))
   \<and> ((\<forall>a\<in>set arr. alert_id a = i \<longrightarrow> truthy (resolvedAt a)) \<longrightarrow> resolveAlert clk i arr = arr)
   \<and> ((\<forall>k<length arr. clk k \<noteq> 0) \<longrightarrow>
        resolveAlert clk' i (resolveAlert clk i arr) = resolveAlert clk i arr)
   \<and> (i \<notin> alert_id ` set arr \<longrightarrow> resolveAlert clk i arr = arr)"
proof -
  have a1: "\<forall>k<length arr. ackAlert clk i arr ! k
         = (if alert_id (arr ! k) = i \<and> \<not> truthy (ackAt (arr ! k))
            then (arr ! k)\<lparr>ackAt := Some (clk k)\<rparr> else arr ! k)"
    by (simp add: ackAlert_nth)
  have a2: "(\<forall>a\<in>set arr. alert_id a = i \<longrightarrow> truthy (ackAt a)) \<longrightarrow> ackAlert clk i arr = arr"
    by (simp add: ackAlert_noop)
  have a3: "(\<forall>k<length arr. clk k \<noteq> 0) \<longrightarrow>
        ackAlert clk' i (ackAlert clk i arr) = ackAlert clk i arr"
    using ackAlert_noop [OF ackAlert_acked] by blast
  have a4: "i \<notin> alert_id ` set arr \<longrightarrow> ackAlert clk i arr = arr"
    by (auto intro: ackAlert_noop)
  have r1: "\<forall>k<length arr. resolveAlert clk i arr ! k
         = (if alert_id (arr ! k) = i \<and> \<not> truthy (resolvedAt (arr ! k))
            then (arr ! k)\<lparr>resolvedAt := Some (clk k)\<rparr> else arr ! k)"
    by (simp add: resolveAlert_nth)
  have r2: "(\<forall>a\<in>set arr. alert_id a = i \<longrightarrow> truthy (resolvedAt a)) \<longrightarrow> resolveAlert clk i arr = arr"
    by (simp add: resolveAlert_noop)
  have r3: "(\<forall>k<length arr. clk k \<noteq> 0) \<longrightarrow>
        resolveAlert clk' i (resolveAlert clk i arr) = resolveAlert clk i arr"
    using resolveAlert_noop [OF resolveAlert_resolved] by blast
  have r4: "i \<notin> alert_id ` set arr \<longrightarrow> resolveAlert clk i arr = arr"
    by (auto intro: resolveAlert_noop)
  from a1 a2 a3 a4 r1 r2 r3 r4 length_ackAlert [of clk i arr] length_resolveAlert [of clk i arr]
  show ?thesis by blast
qed

theorem lifecycle_idempotent_witness:
  "ackAlert clock0 ''a'' (ackAlert clock1 ''a'' [open_alert]) = [open_alert\<lparr>ackAt := Some 1\<rparr>]
   \<and> resolveAlert clock0 ''a'' (resolveAlert clock1 ''a'' [open_alert])
       = [open_alert\<lparr>resolvedAt := Some 1\<rparr>]
   \<and> ackAlert clock1 ''b'' [open_alert] = [open_alert]
   \<and> resolveAlert clock1 ''b'' [open_alert] = [open_alert]"
  using lifecycle_idempotent [of clock1 "''a''" "[open_alert]" clock0]
    lifecycle_idempotent [of clock1 "''b''" "[open_alert]" clock0]
  by (simp add: clock1_def clock0_def open_alert_def ackAlert_def resolveAlert_def)

section \<open>Bounded history (C8)\<close>

lemma cap_drop:
  "(if length xs > n then drop (length xs - n) xs else xs) = drop (length xs - n) xs"
  by simp

lemma simAppend_drop:
  "simAppend batch prev = drop (length (prev @ batch) - 3000) (prev @ batch)"
  unfolding simAppend_def Let_def by (rule cap_drop)

lemma length_slice_last: "length (slice_last n xs) \<le> n"
  by (simp add: slice_last_def)

text \<open>
  C8. After every append (a simulation batch or a manual push) the history holds at most
  3000 events. The new history is the old one followed by the new events, with exactly the
  oldest events beyond 3000 dropped from the front: it is a suffix of the appended list, so
  the newest events are kept, in their order and unchanged; below the ceiling nothing is
  dropped.
\<close>

theorem history_bounded:
  "length (simAppend batch prev) \<le> 3000
   \<and> simAppend batch prev = drop (length (prev @ batch) - 3000) (prev @ batch)
   \<and> suffix (simAppend batch prev) (prev @ batch)
   \<and> take (length (prev @ batch) - 3000) (prev @ batch) @ simAppend batch prev = prev @ batch
   \<and> (length (prev @ batch) \<le> 3000 \<longrightarrow> simAppend batch prev = prev @ batch)
   \<and> length (pushManualLog st dnow r part) \<le> 3000
   \<and> pushManualLog st dnow r part
       = drop (length (logs st @ [manual_event st dnow r part]) - 3000)
           (logs st @ [manual_event st dnow r part])
   \<and> suffix (pushManualLog st dnow r part) (logs st @ [manual_event st dnow r part])
   \<and> (length (logs st) < 3000 \<longrightarrow>
        pushManualLog st dnow r part = logs st @ [manual_event st dnow r part])"
proof -
  have a: "length (simAppend batch prev) \<le> 3000"
    unfolding simAppend_drop length_drop by arith
  have b: "suffix (simAppend batch prev) (prev @ batch)"
    unfolding simAppend_drop by (rule suffix_drop)
  have c: "take (length (prev @ batch) - 3000) (prev @ batch) @ simAppend batch prev = prev @ batch"
    unfolding simAppend_drop by (rule append_take_drop_id)
  have d: "length (prev @ batch) \<le> 3000 \<longrightarrow> simAppend batch prev = prev @ batch"
    by (simp add: simAppend_def)
  have e: "length (pushManualLog st dnow r part) \<le> 3000"
    unfolding pushManualLog_def by (rule length_slice_last)
  have f: "suffix (pushManualLog st dnow r part) (logs st @ [manual_event st dnow r part])"
    unfolding pushManualLog_def slice_last_def by (rule suffix_drop)
  have g: "length (logs st) < 3000 \<longrightarrow>
        pushManualLog st dnow r part = logs st @ [manual_event st dnow r part]"
    by (simp add: pushManualLog_def slice_last_def)
  have h: "pushManualLog st dnow r part
       = drop (length (logs st @ [manual_event st dnow r part]) - 3000)
           (logs st @ [manual_event st dnow r part])"
    unfolding pushManualLog_def slice_last_def ..
  from a b c d e f g h simAppend_drop [of batch prev] show ?thesis
    by blast
qed

theorem history_bounded_witness:
  "simAppend [bad_event] [] = [bad_event]
   \<and> pushManualLog burning_state 0 0 no_partial
       = logs burning_state @ [manual_event burning_state 0 0 no_partial]
   \<and> length (pushManualLog burning_state 0 0 no_partial) \<le> 3000"
  using history_bounded [of "[bad_event]" "[]" burning_state 0 0 no_partial]
  by (simp add: burning_state_def)

section \<open>Manual ingestion of a zero latency (C10)\<close>

lemma Math_round_bounds:
  assumes "0 \<le> r" "r < 1"
  shows "100 \<le> Math_round (fadd 100 (fmul r 200)) \<and> Math_round (fadd 100 (fmul r 200)) \<le> 300"
proof -
  define z where "z = double (r * 200)"
  define v where "v = double (100 + z)"
  define u :: rat where "u = 1 / 2 ^ 53"
  have u: "0 < u" "505 * u \<le> 1 / 4"
    by (simp_all add: u_def)
  from assms have "\<bar>r * 200\<bar> \<le> 200" by (simp add: abs_mult)
  from double_err_le [OF this] have e1: "\<bar>z - r * 200\<bar> \<le> 201 * u"
    by (simp add: z_def u_def)
  with assms u have "\<bar>100 + z\<bar> \<le> 301" by linarith
  from double_err_le [OF this] have e2: "\<bar>v - (100 + z)\<bar> \<le> 302 * u"
    by (simp add: v_def u_def)
  from e1 e2 assms u have lo: "100 \<le> v + 1 / 2" and hi: "v + 1 / 2 < 301"
    by linarith+
  from lo have "(100::int) \<le> \<lfloor>v + 1 / 2\<rfloor>" by (simp add: le_floor_iff)
  moreover from hi have "\<lfloor>v + 1 / 2\<rfloor> \<le> (300::int)" by (simp add: floor_le_iff)
  moreover have "fadd 100 (fmul r 200) = v"
    by (simp add: fadd_def fmul_def v_def z_def)
  ultimately show ?thesis
    unfolding Math_round_def by (metis of_int_le_iff of_int_numeral)
qed

text \<open>
  C10. For every call of \<open>pushManualLog\<close> whose latency field is absent or 0, the event
  that is created and appended does not have latency 0: its latency is the substituted
  value \<open>Math.round(100 + Math.random() * 200)\<close>, which lies between 100 and 300 for every
  value \<open>0 \<le> r < 1\<close> of \<open>Math.random()\<close>.
\<close>

theorem pushManualLog_zero_latency:
  assumes "0 \<le> r" "r < 1"
    and "part_latency_ms part = None \<or> part_latency_ms part = Some 0"
  shows "latency_ms (manual_event st dnow r part) = Math_round (fadd 100 (fmul r 200))
    \<and> latency_ms (manual_event st dnow r part) \<noteq> 0
    \<and> 100 \<le> latency_ms (manual_event st dnow r part)
    \<and> latency_ms (manual_event st dnow r part) \<le> 300
    \<and> last (pushManualLog st dnow r part) = manual_event st dnow r part"
proof -
  have eq: "latency_ms (manual_event st dnow r part) = Math_round (fadd 100 (fmul r 200))"
    using assms(3) by (auto simp: manual_event_def manual_base_def Let_def)
  have l: "last (pushManualLog st dnow r part) = manual_event st dnow r part"
    by (simp add: pushManualLog_def slice_last_def)
  from eq l Math_round_bounds [OF assms(1,2)] show ?thesis by auto
qed

theorem pushManualLog_zero_latency_witness:
  "part_latency_ms no_partial = Some 0
   \<and> latency_ms (manual_event burning_state 0 (1 / 2) no_partial) = 200"
  using pushManualLog_zero_latency [of "1 / 2" no_partial burning_state 0]
  by (simp add: no_partial_def Math_round_def floor_eq_iff default_latency)

section \<open>Candidates of the burn-rate rules (C1)\<close>

lemma filter_type_empty:
  "T \<notin> set (map atype xs) \<Longrightarrow> filter (\<lambda>a. atype a = T) xs = []"
  by (induction xs) auto

lemma burn_loop_types: "set (map atype (burn_loop st clk k ps)) \<subseteq> set (map key ps)"
  by (induction ps arbitrary: k) (auto simp: Let_def)

lemma burn_loop_distinct:
  "distinct (map key ps) \<Longrightarrow> distinct (map atype (burn_loop st clk k ps))"
proof (induction ps arbitrary: k)
  case Nil
  show ?case by simp
next
  case (Cons p ps)
  from Cons.prems have "key p \<notin> set (map key ps)" by simp
  with burn_loop_types [of st clk "k + 2" ps]
  have "key p \<notin> set (map atype (burn_loop st clk (k + 2) ps))" by blast
  moreover from Cons have "distinct (map atype (burn_loop st clk (k + 2) ps))" by simp
  ultimately show ?case by (simp add: Let_def)
qed

lemma burn_loop_count:
  "distinct (map key ps) \<Longrightarrow> i < length ps \<Longrightarrow>
   length (filter (\<lambda>a. atype a = key (ps ! i)) (burn_loop st clk k ps))
     = (if fires (ps ! i) (burnStats st (clk (k + 2 * i)) (short (ps ! i)))
                 (burnStats st (clk (Suc (k + 2 * i))) (long (ps ! i)))
        then 1 else 0)"
proof (induction ps arbitrary: k i)
  case Nil
  then show ?case by simp
next
  case (Cons p ps)
  show ?case
  proof (cases i)
    case 0
    from Cons.prems have "key p \<notin> set (map key ps)" by simp
    with burn_loop_types [of st clk "k + 2" ps]
    have "key p \<notin> set (map atype (burn_loop st clk (k + 2) ps))" by blast
    then have "filter (\<lambda>a. atype a = key p) (burn_loop st clk (k + 2) ps) = []"
      by (rule filter_type_empty)
    with 0 show ?thesis by (simp add: Let_def)
  next
    case (Suc j)
    with Cons.prems have j: "j < length ps" and d: "distinct (map key ps)" by simp_all
    from j have "key (ps ! j) \<in> set (map key ps)" by simp
    with Cons.prems have ne: "key p \<noteq> key (ps ! j)" by auto
    from Cons.IH [OF d j, of "k + 2"] Suc ne show ?thesis
      by (simp add: Let_def)
  qed
qed

lemma pairs_keys:
  "map key (pairs t) = [''Page: 1h & 5m @14.4x'', ''Page: 6h & 30m @6x'',
     ''Ticket: 24h & 2h @3x'', ''Ticket: 3d & 6h @1x'']"
  by (simp add: pairs_def pageA_def pageB_def ticketA_def ticketB_def)

lemma pairs_distinct: "distinct (map key (pairs t))"
  unfolding pairs_keys by simp

lemma demo_types:
  "set (map atype (demo_checks st now))
     \<subseteq> {''SLO Breach (demo)'', ''Latency p95 (demo)'', ''Saturation (demo)'',
         ''Business Metric (demo)''}"
  by (auto simp: demo_checks_def)

lemma demo_distinct: "distinct (map atype (demo_checks st now))"
  by (auto simp: demo_checks_def)

lemma demo_not_key:
  "T \<in> set (map key (pairs t)) \<Longrightarrow> T \<notin> set (map atype (demo_checks st now))"
  using demo_types [of st now] unfolding pairs_keys by auto

lemma newAlerts_distinct: "distinct (map atype (newAlerts st now clk))"
proof -
  have "set (map atype (burn_loop st clk 0 (pairs (tier st))))
          \<inter> set (map atype (demo_checks st now)) = {}"
    using burn_loop_types [of st clk 0 "pairs (tier st)"] demo_not_key [of _ "tier st" st now]
    by blast
  then show ?thesis
    unfolding newAlerts_def map_append distinct_append
    using burn_loop_distinct [OF pairs_distinct] demo_distinct by blast
qed

lemma newAlerts_count:
  assumes "i < length (pairs (tier st))"
  shows "length (filter (\<lambda>a. atype a = key (pairs (tier st) ! i)) (newAlerts st now clk))
     = (if fires (pairs (tier st) ! i)
             (burnStats st (clk (2 * i)) (short (pairs (tier st) ! i)))
             (burnStats st (clk (Suc (2 * i))) (long (pairs (tier st) ! i)))
        then 1 else 0)"
proof -
  from assms have "key (pairs (tier st) ! i) \<in> set (map key (pairs (tier st)))"
    by (metis length_map nth_map nth_mem)
  then have "filter (\<lambda>a. atype a = key (pairs (tier st) ! i)) (demo_checks st now) = []"
    by (intro filter_type_empty demo_not_key)
  with burn_loop_count [OF pairs_distinct assms, of st clk 0] show ?thesis
    by (simp add: newAlerts_def)
qed

text \<open>
  C1. For every window-pair rule \<open>p\<close> (the \<open>i\<close>-th pair of the pass, with \<open>s\<close> and \<open>l\<close>
  the statistics \<open>burnStats\<close> returns for its short and its long window), a candidate
  alert of the rule's type is produced if and only if the short and the long burn are both
  at least the rule's threshold and both windows hold strictly more than 20 events; the
  rule then contributes exactly one candidate, and none otherwise. In particular, with
  availability target \<^verbatim>\<open>99.9\<close> and a history of 25 events that are all bad and all inside
  both windows of the first rule (threshold \<^verbatim>\<open>14.4\<close>), both windows show 100 percent bad
  and the burn the source computes, \<^verbatim>\<open>1000.0000000000568\<close>, and the rule fires exactly
  once.
\<close>

theorem burn_rule_fires_iff:
  assumes "i < length (pairs (tier st))"
    and "p = pairs (tier st) ! i"
    and "s = burnStats st (clk (2 * i)) (short p)"
    and "l = burnStats st (clk (2 * i + 1)) (long p)"
  shows "((\<exists>a\<in>set (newAlerts st now clk). atype a = key p)
            \<longleftrightarrow> ge_num (burn s) (thr p) \<and> ge_num (burn l) (thr p)
                 \<and> total_n s > 20 \<and> total_n l > 20)
    \<and> length (filter (\<lambda>a. atype a = key p) (newAlerts st now clk))
        = (if ge_num (burn s) (thr p) \<and> ge_num (burn l) (thr p)
              \<and> total_n s > 20 \<and> total_n l > 20 then 1 else 0)
    \<and> (i = 0 \<and> availabilityTarget (slo st) = double (999 / 10) \<and> length (logs st) = 25
        \<and> (\<forall>e\<in>set (logs st). \<not> goodByPolicy st (Some e)
              \<and> fsub (of_int (clk 0)) (fmul (short p) 1000) \<le> of_int (ts e)
              \<and> fsub (of_int (clk 1)) (fmul (long p) 1000) \<le> of_int (ts e))
        \<longrightarrow> thr p = double (144 / 10) \<and> badPct s = 100 \<and> badPct l = 100
            \<and> burn s = Num (2199023255552125 / 2199023255552)
            \<and> burn l = Num (2199023255552125 / 2199023255552)
            \<and> length (filter (\<lambda>a. atype a = key p) (newAlerts st now clk)) = 1)"
proof -
  let ?c = "ge_num (burn s) (thr p) \<and> ge_num (burn l) (thr p) \<and> total_n s > 20 \<and> total_n l > 20"
  have cnt: "length (filter (\<lambda>a. atype a = key p) (newAlerts st now clk)) = (if ?c then 1 else 0)"
    using newAlerts_count [OF assms(1), of now clk] unfolding assms(2-4) fires_def by simp
  have "(\<exists>a\<in>set (newAlerts st now clk). atype a = key p)
          \<longleftrightarrow> filter (\<lambda>a. atype a = key p) (newAlerts st now clk) \<noteq> []"
    by (simp add: filter_empty_conv)
  also have "\<dots> \<longleftrightarrow> ?c"
    using cnt by (auto split: if_splits)
  finally have iff: "(\<exists>a\<in>set (newAlerts st now clk). atype a = key p) \<longleftrightarrow> ?c" .
  have e2e: "thr p = double (144 / 10) \<and> badPct s = 100 \<and> badPct l = 100
            \<and> burn s = Num (2199023255552125 / 2199023255552)
            \<and> burn l = Num (2199023255552125 / 2199023255552)
            \<and> length (filter (\<lambda>a. atype a = key p) (newAlerts st now clk)) = 1"
    if h: "i = 0" "availabilityTarget (slo st) = double (999 / 10)" "length (logs st) = 25"
      "\<forall>e\<in>set (logs st). \<not> goodByPolicy st (Some e)
              \<and> fsub (of_int (clk 0)) (fmul (short p) 1000) \<le> of_int (ts e)
              \<and> fsub (of_int (clk 1)) (fmul (long p) 1000) \<le> of_int (ts e)"
  proof -
    from h(3) have ne: "logs st \<noteq> []" by auto
    have s: "s = \<lparr>total_n = 25, badPct = 100, burn = Num (2199023255552125 / 2199023255552)\<rparr>"
      unfolding assms(3) using burnStats_all_bad [of st "clk 0" "short p"] ne h
      by (simp add: burn_999 budget_999)
    have l: "l = \<lparr>total_n = 25, badPct = 100, burn = Num (2199023255552125 / 2199023255552)\<rparr>"
      unfolding assms(4) using burnStats_all_bad [of st "clk 1" "long p"] ne h
      by (simp add: burn_999 budget_999)
    have t: "thr p = double (144 / 10)"
      unfolding assms(2) h(1) by (simp add: pairs_def pageA_def)
    have "ge_num (Num (2199023255552125 / 2199023255552)) (double (144 / 10))"
      by (simp add: double_values)
    with cnt s l t show ?thesis by simp
  qed
  from iff cnt e2e show ?thesis by blast
qed

theorem burn_rule_fires_iff_witness:
  "(\<exists>a\<in>set (newAlerts burning_state 0 clock0). atype a = ''Page: 1h & 5m @14.4x'')
   \<and> length (filter (\<lambda>a. atype a = ''Page: 1h & 5m @14.4x'') (newAlerts burning_state 0 clock0)) = 1
   \<and> burnStats burning_state 0 60
       = \<lparr>total_n = 25, badPct = 100, burn = Num (2199023255552125 / 2199023255552)\<rparr>
   \<and> \<not> (\<exists>a\<in>set (newAlerts nine_bad_state 0 clock0). atype a = ''Page: 1h & 5m @14.4x'')
   \<and> burn (burnStats nine_bad_state 0 5) = Num (2026619832316723 / 140737488355328)"
proof -
  have k: "key (pairs Tier1 ! 0) = ''Page: 1h & 5m @14.4x''"
    "short (pairs Tier1 ! 0) = 5" "long (pairs Tier1 ! 0) = 60"
    "thr (pairs Tier1 ! 0) = double (144 / 10)" "length (pairs Tier1) = 4"
    unfolding pairs_Tier1 by simp_all
  have b5: "burnStats burning_state 0 5
      = \<lparr>total_n = 25, badPct = 100, burn = Num (2199023255552125 / 2199023255552)\<rparr>"
    and b60: "burnStats burning_state 0 60
      = \<lparr>total_n = 25, badPct = 100, burn = Num (2199023255552125 / 2199023255552)\<rparr>"
    by (simp_all add: burning_short cutoffs_at_0)
  have n5: "burnStats nine_bad_state 0 5
      = \<lparr>total_n = 125, badPct = 2026619832316723 / 281474976710656,
         burn = Num (2026619832316723 / 140737488355328)\<rparr>"
    by (simp add: nine_short cutoffs_at_0)
  from burn_rule_fires_iff [of 0 burning_state "pairs Tier1 ! 0" "burnStats burning_state 0 5" clock0
      "burnStats burning_state 0 60" 0]
  have fire: "(\<exists>a\<in>set (newAlerts burning_state 0 clock0). atype a = ''Page: 1h & 5m @14.4x'')
      \<and> length (filter (\<lambda>a. atype a = ''Page: 1h & 5m @14.4x'') (newAlerts burning_state 0 clock0)) = 1"
    by (simp add: burning_fields k clock0_def b5 b60 double_values)
  from burn_rule_fires_iff [of 0 nine_bad_state "pairs Tier1 ! 0" "burnStats nine_bad_state 0 5" clock0
      "burnStats nine_bad_state 0 60" 0]
  have quiet: "\<not> (\<exists>a\<in>set (newAlerts nine_bad_state 0 clock0). atype a = ''Page: 1h & 5m @14.4x'')"
    by (simp add: nine_fields k clock0_def n5 double_values)
  from fire quiet b60 n5 show ?thesis by simp
qed

section \<open>Deduplication against open alerts (C4)\<close>

lemma toAdd_length:
  "length (toAdd uuid aclk new prev) = length (filter (\<lambda>a. atype a \<notin> openTypes prev) new)"
  by (simp add: toAdd_def)

lemma toAdd_nth:
  assumes "k < length (filter (\<lambda>a. atype a \<notin> openTypes prev) new)"
  shows "toAdd uuid aclk new prev ! k
     = \<lparr>atype = atype (filter (\<lambda>a. atype a \<notin> openTypes prev) new ! k),
        severity = severity (filter (\<lambda>a. atype a \<notin> openTypes prev) new ! k),
        message = message (filter (\<lambda>a. atype a \<notin> openTypes prev) new ! k),
        alert_id = uuid k, createdAt = aclk k, ackAt = None, resolvedAt = None\<rparr>"
  using assms by (simp add: toAdd_def mk_alert_def nth_enumerate_eq)

lemma toAdd_types:
  "map atype (toAdd uuid aclk new prev) = filter (\<lambda>T. T \<notin> openTypes prev) (map atype new)"
proof -
  have "map atype (toAdd uuid aclk new prev)
          = map (atype \<circ> snd) (enumerate 0 (filter (\<lambda>a. atype a \<notin> openTypes prev) new))"
    by (simp add: toAdd_def mk_alert_def comp_def)
  also have "\<dots> = map atype (filter (\<lambda>a. atype a \<notin> openTypes prev) new)"
    by (simp flip: map_map)
  also have "\<dots> = filter (\<lambda>T. T \<notin> openTypes prev) (map atype new)"
    by (simp add: filter_map comp_def)
  finally show ?thesis .
qed

lemma toAdd_open: "filter is_open (toAdd uuid aclk new prev) = toAdd uuid aclk new prev"
  by (simp add: toAdd_def mk_alert_def is_open_def filter_id_conv)

lemma dedup_eq: "dedup uuid aclk new prev = toAdd uuid aclk new prev @ prev"
  by (simp add: dedup_def)

lemma checkAlerts_eq:
  "checkAlerts st now clk uuid aclk
     = toAdd uuid aclk (newAlerts st now clk) (alerts st) @ alerts st"
  by (simp add: checkAlerts_def dedup_eq toAdd_def)

lemma open_types_dedup:
  "map atype (filter is_open (dedup uuid aclk new prev))
     = filter (\<lambda>T. T \<notin> openTypes prev) (map atype new) @ map atype (filter is_open prev)"
  by (simp add: dedup_eq toAdd_open toAdd_types)

lemma dedup_inv:
  assumes "distinct (map atype new)" "distinct (map atype (filter is_open prev))"
  shows "distinct (map atype (filter is_open (dedup uuid aclk new prev)))"
  unfolding open_types_dedup using assms by (auto simp: openTypes_def)

lemma checkAlerts_inv:
  assumes "distinct (map atype (filter is_open (alerts st)))"
  shows "distinct (map atype (filter is_open (checkAlerts st now clk uuid aclk)))"
proof (cases "newAlerts st now clk = []")
  case True
  with assms show ?thesis by (simp add: checkAlerts_def)
next
  case False
  then have "checkAlerts st now clk uuid aclk = dedup uuid aclk (newAlerts st now clk) (alerts st)"
    by (simp add: checkAlerts_def)
  with dedup_inv [OF newAlerts_distinct assms] show ?thesis by simp
qed

lemma rewrite_inv:
  assumes same: "\<And>k a. atype (f k a) = atype a"
    and opn: "\<And>k a. is_open (f k a) \<Longrightarrow> is_open a"
    and d: "distinct (map atype (filter is_open arr))"
  shows "distinct (map atype (filter is_open (map (\<lambda>(k, a). f k a) (enumerate n arr))))
    \<and> set (map atype (filter is_open (map (\<lambda>(k, a). f k a) (enumerate n arr))))
        \<subseteq> set (map atype (filter is_open arr))"
  using d
proof (induction arr arbitrary: n)
  case Nil
  show ?case by simp
next
  case (Cons a arr)
  from Cons.prems have d': "distinct (map atype (filter is_open arr))"
    by (simp split: if_splits)
  let ?R = "filter is_open (map (\<lambda>(k, a). f k a) (enumerate (Suc n) arr))"
  from Cons.IH [OF d', of "Suc n"]
  have dR: "distinct (map atype ?R)"
    and sR: "set (map atype ?R) \<subseteq> set (map atype (filter is_open arr))"
    by blast+
  show ?case
  proof (cases "is_open (f n a)")
    case True
    then have oa: "is_open a" by (rule opn)
    with Cons.prems have "atype a \<notin> set (map atype (filter is_open arr))" by simp
    with sR have notin: "atype a \<notin> set (map atype ?R)" by blast
    have l: "filter is_open (map (\<lambda>(k, a). f k a) (enumerate n (a # arr))) = f n a # ?R"
      using True by simp
    have r: "filter is_open (a # arr) = a # filter is_open arr"
      using oa by simp
    show ?thesis
      unfolding l r using dR sR notin by (simp add: same subset_insertI2)
  next
    case False
    then have l: "filter is_open (map (\<lambda>(k, a). f k a) (enumerate n (a # arr))) = ?R"
      by simp
    have "set (map atype (filter is_open arr)) \<subseteq> set (map atype (filter is_open (a # arr)))"
      by auto
    with dR sR show ?thesis unfolding l by blast
  qed
qed

lemma ackAlert_inv:
  assumes "distinct (map atype (filter is_open arr))"
  shows "distinct (map atype (filter is_open (ackAlert clk i arr)))"
proof -
  let ?f = "\<lambda>k a. if alert_id a = i \<and> \<not> truthy (ackAt a) then a\<lparr>ackAt := Some (clk k)\<rparr> else a"
  have "distinct (map atype (filter is_open (map (\<lambda>(k, a). ?f k a) (enumerate 0 arr))))"
    by (rule rewrite_inv [THEN conjunct1]) (auto simp: is_open_def assms split: if_splits)
  then show ?thesis by (simp add: ackAlert_def)
qed

lemma resolveAlert_inv:
  assumes "distinct (map atype (filter is_open arr))"
  shows "distinct (map atype (filter is_open (resolveAlert clk i arr)))"
proof -
  let ?f = "\<lambda>k a. if alert_id a = i \<and> \<not> truthy (resolvedAt a)
                   then a\<lparr>resolvedAt := Some (clk k)\<rparr> else a"
  have "distinct (map atype (filter is_open (map (\<lambda>(k, a). ?f k a) (enumerate 0 arr))))"
    by (rule rewrite_inv [THEN conjunct1]) (auto simp: is_open_def assms split: if_splits)
  then show ?thesis by (simp add: resolveAlert_def)
qed

lemma reachable_inv: "reachable arr \<Longrightarrow> distinct (map atype (filter is_open arr))"
proof (induction rule: reachable.induct)
  case init
  show ?case by simp
next
  case (check st now clk uuid aclk)
  show ?case by (rule checkAlerts_inv [OF check.IH])
next
  case (ack arr clk i)
  show ?case by (rule ackAlert_inv [OF ack.IH])
next
  case (resolve arr clk i)
  show ?case by (rule resolveAlert_inv [OF resolve.IH])
qed

lemma count_one:
  "distinct (map f xs) \<Longrightarrow> y \<in> set (map f xs) \<Longrightarrow> length (filter (\<lambda>a. f a = y) xs) = 1"
proof (induction xs)
  case Nil
  then show ?case by simp
next
  case (Cons x xs)
  show ?case
  proof (cases "f x = y")
    case True
    with Cons.prems have "y \<notin> set (map f xs)" by auto
    then have "filter (\<lambda>a. f a = y) xs = []" by (induction xs) auto
    with True show ?thesis by simp
  next
    case False
    with Cons show ?thesis by auto
  qed
qed

lemma count_zero: "y \<notin> set (map f xs) \<Longrightarrow> length (filter (\<lambda>a. f a = y) xs) = 0"
  by (induction xs) auto

lemma toAdd_count:
  assumes "distinct (map atype new)"
  shows "length (filter (\<lambda>a. atype a = T) (toAdd uuid aclk new prev))
     = (if T \<in> set (map atype new) \<and> T \<notin> openTypes prev then 1 else 0)"
proof (cases "T \<in> set (map atype new) \<and> T \<notin> openTypes prev")
  case True
  have "distinct (map atype (toAdd uuid aclk new prev))"
    unfolding toAdd_types using assms by simp
  moreover from True have "T \<in> set (map atype (toAdd uuid aclk new prev))"
    unfolding toAdd_types by simp
  ultimately show ?thesis using True by (simp add: count_one)
next
  case False
  then have "T \<notin> set (map atype (toAdd uuid aclk new prev))"
    unfolding toAdd_types by auto
  with False show ?thesis by (simp add: count_zero)
qed

lemma checkAlerts_count:
  "length (filter (\<lambda>a. atype a = T) (checkAlerts st now clk uuid aclk))
     = (if T \<in> set (map atype (newAlerts st now clk)) \<and> T \<notin> openTypes (alerts st) then 1 else 0)
       + length (filter (\<lambda>a. atype a = T) (alerts st))"
  unfolding checkAlerts_eq filter_append length_append toAdd_count [OF newAlerts_distinct] ..

lemma checkAlerts_opens:
  assumes "T \<in> set (map atype (newAlerts st now clk))"
  shows "T \<in> openTypes (checkAlerts st now clk uuid aclk)"
proof -
  have "openTypes (checkAlerts st now clk uuid aclk)
      = set (map atype (toAdd uuid aclk (newAlerts st now clk) (alerts st))) \<union> openTypes (alerts st)"
    unfolding checkAlerts_eq openTypes_def filter_append toAdd_open by simp
  with assms show ?thesis unfolding toAdd_types by auto
qed

lemma count_le_one: "distinct (map f xs) \<Longrightarrow> length (filter (\<lambda>a. f a = y) xs) \<le> 1"
  by (cases "y \<in> set (map f xs)") (simp_all add: count_one count_zero)

text \<open>
  C4. In every alert store the component can reach, the open (non-resolved) alerts have
  pairwise different types, so at most one open alert per type exists. A pass of
  \<open>checkAlerts\<close> puts in front of the store (newest first) exactly the candidates whose
  type is not the type of an open alert, each with the identifier and the creation
  timestamp drawn for it and with no acknowledgement or resolution timestamp; a candidate
  whose type matches an open alert is suppressed. Hence when two consecutive passes both
  produce a candidate of type \<open>T\<close> and nothing resolves in between, the second pass adds
  no record of type \<open>T\<close>, and a store that held no record of type \<open>T\<close> before holds
  exactly one after both passes.
\<close>

theorem open_alert_unique:
  "(reachable arr \<longrightarrow> distinct (map atype (filter is_open arr))
       \<and> length (filter (\<lambda>a. atype a = T) (filter is_open arr)) \<le> 1)
   \<and> checkAlerts st now clk uuid aclk
        = toAdd uuid aclk (newAlerts st now clk) (alerts st) @ alerts st
   \<and> (\<forall>a\<in>set (toAdd uuid aclk new prev). atype a \<notin> openTypes prev)
   \<and> length (toAdd uuid aclk new prev) = length (filter (\<lambda>a. atype a \<notin> openTypes prev) new)
   \<and> (\<forall>k<length (filter (\<lambda>a. atype a \<notin> openTypes prev) new).
         toAdd uuid aclk new prev ! k
           = \<lparr>atype = atype (filter (\<lambda>a. atype a \<notin> openTypes prev) new ! k),
              severity = severity (filter (\<lambda>a. atype a \<notin> openTypes prev) new ! k),
              message = message (filter (\<lambda>a. atype a \<notin> openTypes prev) new ! k),
              alert_id = uuid k, createdAt = aclk k, ackAt = None, resolvedAt = None\<rparr>)
   \<and> (T \<in> set (map atype (newAlerts st now clk))
        \<and> T \<in> set (map atype (newAlerts st' now' clk'))
        \<and> alerts st' = checkAlerts st now clk uuid aclk
        \<longrightarrow> length (filter (\<lambda>a. atype a = T) (checkAlerts st' now' clk' uuid' aclk'))
              = length (filter (\<lambda>a. atype a = T) (checkAlerts st now clk uuid aclk))
            \<and> (T \<notin> set (map atype (alerts st)) \<longrightarrow>
                 length (filter (\<lambda>a. atype a = T) (checkAlerts st' now' clk' uuid' aclk')) = 1))"
proof -
  have inv: "reachable arr \<longrightarrow> distinct (map atype (filter is_open arr))
       \<and> length (filter (\<lambda>a. atype a = T) (filter is_open arr)) \<le> 1"
    using reachable_inv [of arr] count_le_one [of atype "filter is_open arr" T] by blast
  have sup: "\<forall>a\<in>set (toAdd uuid aclk new prev). atype a \<notin> openTypes prev"
  proof
    fix a assume "a \<in> set (toAdd uuid aclk new prev)"
    then have "atype a \<in> set (map atype (toAdd uuid aclk new prev))" by simp
    then show "atype a \<notin> openTypes prev" unfolding toAdd_types by simp
  qed
  have nth: "\<forall>k<length (filter (\<lambda>a. atype a \<notin> openTypes prev) new).
         toAdd uuid aclk new prev ! k
           = \<lparr>atype = atype (filter (\<lambda>a. atype a \<notin> openTypes prev) new ! k),
              severity = severity (filter (\<lambda>a. atype a \<notin> openTypes prev) new ! k),
              message = message (filter (\<lambda>a. atype a \<notin> openTypes prev) new ! k),
              alert_id = uuid k, createdAt = aclk k, ackAt = None, resolvedAt = None\<rparr>"
    using toAdd_nth by blast
  have two: "length (filter (\<lambda>a. atype a = T) (checkAlerts st' now' clk' uuid' aclk'))
              = length (filter (\<lambda>a. atype a = T) (checkAlerts st now clk uuid aclk))
            \<and> (T \<notin> set (map atype (alerts st)) \<longrightarrow>
                 length (filter (\<lambda>a. atype a = T) (checkAlerts st' now' clk' uuid' aclk')) = 1)"
    if f1: "T \<in> set (map atype (newAlerts st now clk))"
      and f2: "T \<in> set (map atype (newAlerts st' now' clk'))"
      and nxt: "alerts st' = checkAlerts st now clk uuid aclk"
  proof -
    from checkAlerts_opens [OF f1] nxt have "T \<in> openTypes (alerts st')" by simp
    then have second: "length (filter (\<lambda>a. atype a = T) (checkAlerts st' now' clk' uuid' aclk'))
        = length (filter (\<lambda>a. atype a = T) (checkAlerts st now clk uuid aclk))"
      unfolding checkAlerts_count [of T st'] nxt by simp
    have "length (filter (\<lambda>a. atype a = T) (checkAlerts st now clk uuid aclk)) = 1"
      if n: "T \<notin> set (map atype (alerts st))"
    proof -
      from n have "T \<notin> openTypes (alerts st)" by (auto simp: openTypes_def)
      with n f1 show ?thesis
        unfolding checkAlerts_count [of T st] by (simp add: count_zero)
    qed
    with second show ?thesis by simp
  qed
  from inv sup nth two checkAlerts_eq [of st now clk uuid aclk] toAdd_length [of uuid aclk new prev]
  show ?thesis by blast
qed

theorem open_alert_unique_witness:
  "reachable (checkAlerts burning_state 0 clock0 uuid0 clock1)
   \<and> length (filter (\<lambda>a. atype a = ''Page: 1h & 5m @14.4x'')
        (checkAlerts (burning_state\<lparr>alerts := checkAlerts burning_state 0 clock0 uuid0 clock1\<rparr>)
           0 clock0 uuid0 clock1)) = 1
   \<and> length (filter (\<lambda>a. atype a = ''Page: 1h & 5m @14.4x'')
        (filter is_open (checkAlerts burning_state 0 clock0 uuid0 clock1))) \<le> 1"
proof -
  let ?st' = "burning_state\<lparr>alerts := checkAlerts burning_state 0 clock0 uuid0 clock1\<rparr>"
  have r: "reachable (checkAlerts burning_state 0 clock0 uuid0 clock1)"
    by (rule reachable.check) (simp add: burning_fields reachable.init)
  have n': "newAlerts ?st' 0 clock0 = newAlerts burning_state 0 clock0"
    by (rule newAlerts_cong) simp_all
  have t: "''Page: 1h & 5m @14.4x'' \<in> set (map atype (newAlerts burning_state 0 clock0))"
    unfolding burning_types by simp
  have t': "''Page: 1h & 5m @14.4x'' \<in> set (map atype (newAlerts ?st' 0 clock0))"
    unfolding n' by (rule t)
  have nxt: "alerts ?st' = checkAlerts burning_state 0 clock0 uuid0 clock1"
    by simp
  have nn: "''Page: 1h & 5m @14.4x'' \<notin> set (map atype (alerts burning_state))"
    by (simp add: burning_fields)
  note th = open_alert_unique [where arr = "checkAlerts burning_state 0 clock0 uuid0 clock1"
        and T = "''Page: 1h & 5m @14.4x''" and st = burning_state and now = 0 and clk = clock0
        and uuid = uuid0 and aclk = clock1 and st' = ?st' and now' = 0 and clk' = clock0
        and uuid' = uuid0 and aclk' = clock1 and new = "[]" and prev = "[]"]
  from th r have le: "length (filter (\<lambda>a. atype a = ''Page: 1h & 5m @14.4x'')
        (filter is_open (checkAlerts burning_state 0 clock0 uuid0 clock1))) \<le> 1"
    by blast
  from th t t' nxt nn have one: "length (filter (\<lambda>a. atype a = ''Page: 1h & 5m @14.4x'')
        (checkAlerts ?st' 0 clock0 uuid0 clock1)) = 1"
    by blast
  from r le one show ?thesis by blast
qed

section \<open>What the candidates depend on (C9)\<close>

lemma burn_loop_clk_cong:
  "(\<forall>j<2 * length ps. clk (k + j) = clk' (k + j)) \<Longrightarrow>
   burn_loop st clk k ps = burn_loop st clk' k ps"
proof (induction ps arbitrary: k)
  case Nil
  show ?case by simp
next
  case (Cons p ps)
  from Cons.prems [rule_format, of 0] have a: "clk k = clk' k" by simp
  from Cons.prems [rule_format, of 1] have b: "clk (Suc k) = clk' (Suc k)" by simp
  have "\<forall>j<2 * length ps. clk (k + 2 + j) = clk' (k + 2 + j)"
  proof (intro allI impI)
    fix j assume "j < 2 * length ps"
    then have "2 + j < 2 * length (p # ps)" by simp
    with Cons.prems have "clk (k + (2 + j)) = clk' (k + (2 + j))" by blast
    then show "clk (k + 2 + j) = clk' (k + 2 + j)" by (simp add: add.assoc)
  qed
  then have "burn_loop st clk (k + 2) ps = burn_loop st clk' (k + 2) ps"
    by (rule Cons.IH)
  then show ?case
    unfolding burn_loop.simps a b by simp
qed

text \<open>
  C9, amended. The candidates of a pass are a function of the event history, the policy
  (\<open>bakeSLI\<close>, the two targets, the SLI toggles), the tier, the CPU reading and the clock
  readings of the pass (the reading at render time and the eight readings of the burn
  windows): two passes that agree on these produce the same list of candidates, with the
  same types, severities and messages, whatever the alert store, the score, the badges, the
  scenario or the lock hold. Nothing is retried: the list is computed once.
\<close>

theorem candidates_determined:
  assumes "logs st = logs st'" "slo st = slo st'" "bakeSLI st = bakeSLI st'"
    and "sli st = sli st'" "tier st = tier st'" "cpu st = cpu st'"
    and "\<forall>j<8. clk j = clk' j"
  shows "newAlerts st now clk = newAlerts st' now clk'"
proof -
  have "length (pairs (tier st)) = 4" by (simp add: pairs_def)
  with assms(7) have "\<forall>j<2 * length (pairs (tier st)). clk (0 + j) = clk' (0 + j)" by simp
  then have "burn_loop st clk 0 (pairs (tier st)) = burn_loop st clk' 0 (pairs (tier st))"
    by (rule burn_loop_clk_cong)
  then have "newAlerts st now clk = newAlerts st now clk'"
    by (simp add: newAlerts_def)
  also have "\<dots> = newAlerts st' now clk'"
    by (rule newAlerts_cong [OF assms(1-6)])
  finally show ?thesis .
qed

theorem candidates_determined_witness:
  "newAlerts (burning_state\<lparr>alerts := [open_alert], score := 5, lockExpected := True\<rparr>) 0 clock0
     = newAlerts burning_state 0 clock0"
  using candidates_determined [of "burning_state\<lparr>alerts := [open_alert], score := 5, lockExpected := True\<rparr>"
      burning_state clock0 clock0 0]
  by simp

text \<open>
  C9 as stated fails. History and policy alone do not determine the candidates: with the same 25 failed events
  and the same policy, a pass whose clock reads 0 fires all four burn-rate rules and a pass
  whose clock reads 10000000 fires none, and a CPU reading of 90 adds a saturation
  candidate that a reading of 22 does not.
\<close>

theorem candidates_depend_on_clock:
  "logs (burning_state\<lparr>cpu := 90\<rparr>) = logs burning_state
   \<and> slo (burning_state\<lparr>cpu := 90\<rparr>) = slo burning_state
   \<and> bakeSLI (burning_state\<lparr>cpu := 90\<rparr>) = bakeSLI burning_state
   \<and> newAlerts burning_state 0 clock0 \<noteq> newAlerts burning_state 0 clock_late
   \<and> newAlerts (burning_state\<lparr>cpu := 90\<rparr>) 0 clock_late \<noteq> newAlerts burning_state 0 clock_late"
proof -
  have "burn_loop (burning_state\<lparr>cpu := 90\<rparr>) clock_late 0 (pairs (tier burning_state))
          = burn_loop burning_state clock_late 0 (pairs (tier burning_state))"
    by (rule burn_loop_cong) simp_all
  also have "\<dots> = []"
    using late_newAlerts by (simp add: newAlerts_def)
  finally have "newAlerts (burning_state\<lparr>cpu := 90\<rparr>) 0 clock_late \<noteq> []"
    by (simp add: newAlerts_def hot_demo)
  moreover have "newAlerts burning_state 0 clock0 \<noteq> []"
    using burning_types by auto
  ultimately show ?thesis
    unfolding late_newAlerts by simp
qed

end
